theory Spec2Isabelle
  imports Main "HOL-Library.Word"
begin

section \<open>JavaScript strings\<close>

text \<open>
  A JavaScript string is a sequence of UTF-16 code units; \<open>length\<close>, \<open>substring\<close>,
  \<open>slice\<close>, \<open>startsWith\<close>, \<open>split\<close> and regular expressions without the \<open>u\<close> flag all
  count and compare code units. \<open>js\<close> embeds an ASCII literal.
\<close>

type_synonym jschar = "16 word"
type_synonym jsstring = "jschar list"

definition js :: "string \<Rightarrow> jsstring" where
  "js s = map of_char s"

text \<open>\<open>s.startsWith(p)\<close>.\<close>

definition startsWith :: "jsstring \<Rightarrow> jsstring \<Rightarrow> bool" where
  "startsWith s p = (take (length p) s = p)"

text \<open>\<open>s.split(d)\<close> for a one-unit separator: never empty, \<open>"".split(d)\<close> is \<open>[""]\<close>.\<close>

fun splitOn :: "jschar \<Rightarrow> jsstring \<Rightarrow> jsstring list" where
  "splitOn d [] = [[]]"
| "splitOn d (c # cs) =
     (if c = d then [] # splitOn d cs
      else (case splitOn d cs of [] \<Rightarrow> [[c]] | p # ps \<Rightarrow> (c # p) # ps))"

text \<open>\<open>xs[i]\<close>: reading past the end of a JavaScript array gives \<open>undefined\<close> (\<open>None\<close>).\<close>

fun index :: "'a list \<Rightarrow> nat \<Rightarrow> 'a option" where
  "index [] i = None"
| "index (x # xs) i = (if i = 0 then Some x else index xs (i - 1))"

text \<open>\<open>String(n)\<close> for a non-negative integer, as a template literal interpolates it.\<close>

fun decimal :: "nat \<Rightarrow> jsstring" where
  "decimal n = (if n < 10 then [of_nat (48 + n)] else decimal (n div 10) @ [of_nat (48 + n mod 10)])"

declare decimal.simps [simp del]

subsection \<open>Character classes of the regular expressions\<close>

text \<open>\<open>\d\<close>: the ASCII digits.\<close>

definition isDigit :: "jschar \<Rightarrow> bool" where
  "isDigit c = (48 \<le> c \<and> c \<le> 57)"

text \<open>
  \<open>\s\<close>: ECMAScript white space and line terminators (tab, LF, VT, FF, CR, space, NBSP,
  U+1680, U+2000 to U+200A, U+2028, U+2029, U+202F, U+205F, U+3000, U+FEFF).
\<close>

definition isSpace :: "jschar \<Rightarrow> bool" where
  "isSpace c =
     ((9 \<le> c \<and> c \<le> 13) \<or> c = 32 \<or> c = 160 \<or> c = 0x1680 \<or> (0x2000 \<le> c \<and> c \<le> 0x200A) \<or>
      c = 0x2028 \<or> c = 0x2029 \<or> c = 0x202F \<or> c = 0x205F \<or> c = 0x3000 \<or> c = 0xFEFF)"

definition isAlnum :: "jschar \<Rightarrow> bool" where
  "isAlnum c = ((97 \<le> c \<and> c \<le> 122) \<or> (65 \<le> c \<and> c \<le> 90) \<or> isDigit c)"

text \<open>\<open>\w\<close>, which decides the word boundary \<open>\b\<close>.\<close>

definition isWordChar :: "jschar \<Rightarrow> bool" where
  "isWordChar c = (isAlnum c \<or> c = 95)"

subsection \<open>The mention patterns\<close>

text \<open>
  \<open>matchMention amp s\<close> matches \<open><@\d+>\<close> (and \<open><@&?\d+>\<close> when \<open>amp\<close>) at the very start of
  \<open>s\<close> and returns the matched text with what follows it. \<open>\d+\<close> is greedy, and neither
  \<open>&\<close> nor a digit can stand for the closing bracket, so backtracking finds no other match.
\<close>

fun matchMention :: "bool \<Rightarrow> jsstring \<Rightarrow> (jsstring \<times> jsstring) option" where
  "matchMention amp (a # b # r) =
     (if a = 0x3C \<and> b = 0x40 then
        (let opt = (if amp \<and> take 1 r = [0x26] then [0x26] else []);
             r1 = drop (length opt) r;
             ds = takeWhile isDigit r1
         in (case dropWhile isDigit r1 of
               [] \<Rightarrow> None
             | c # rest \<Rightarrow>
                 if ds \<noteq> [] \<and> c = 0x3E then Some ([0x3C, 0x40] @ opt @ ds @ [0x3E], rest)
                 else None))
      else None)"
| "matchMention amp s = None"

text \<open>
  \<open>regex.exec(text)\<close> for \<open>/<@&?\d+>/g\<close>, the argument being the text from \<open>lastIndex\<close> on:
  the leftmost match, with the text after it (where the next \<open>exec\<close> resumes).
\<close>

fun regexExec :: "jsstring \<Rightarrow> (jsstring \<times> jsstring) option" where
  "regexExec [] = None"
| "regexExec (c # cs) =
     (case matchMention True (c # cs) of Some r \<Rightarrow> Some r | None \<Rightarrow> regexExec cs)"

text \<open>
  \<open>content.replace(/<@\d+>\s*/, "")\<close>: the pattern is neither anchored nor global, so the
  leftmost match, wherever it stands, is removed with the white space after it.
\<close>

fun replaceMention :: "jsstring \<Rightarrow> jsstring" where
  "replaceMention [] = []"
| "replaceMention (c # cs) =
     (case matchMention False (c # cs) of
        Some (m, rest) \<Rightarrow> dropWhile isSpace rest
      | None \<Rightarrow> c # replaceMention cs)"

subsection \<open>The link pattern\<close>

text \<open>
  \<open>the_linkRegex\<close> is \<open>linkRegex.test(s)\<close> for the constant \<open>linkRegex\<close> of \<open>fetchThreadMessages\<close>,
  \<^verbatim>\<open>/https?:\/\/(www\.)?[-a-zA-Z0-9@:%._\+~#=]{1,256}\.[a-zA-Z0-9()]{1,6}\b([-a-zA-Z0-9()@:%_\+.~#?&//=]*)/\<close>.
  \<open>test\<close> answers whether some start and some choice of the repetition counts match, which
  is what backtracking decides; the trailing group matches the empty text, so it never
  changes the answer.
\<close>

definition isHostChar :: "jschar \<Rightarrow> bool" where
  "isHostChar c = (isAlnum c \<or> c \<in> set (js ''-@:%._+~#=''))"

definition isTldChar :: "jschar \<Rightarrow> bool" where
  "isTldChar c = (isAlnum c \<or> c = 0x28 \<or> c = 0x29)"

text \<open>
  Every way of consuming between one and \<open>n\<close> units of a class: the last unit consumed and
  the text left.
\<close>

fun consume :: "(jschar \<Rightarrow> bool) \<Rightarrow> nat \<Rightarrow> jsstring \<Rightarrow> (jschar \<times> jsstring) list" where
  "consume p n [] = []"
| "consume p n (c # cs) = (if 0 < n \<and> p c then (c, cs) # consume p (n - 1) cs else [])"

definition wordBoundary :: "jschar \<Rightarrow> jsstring \<Rightarrow> bool" where
  "wordBoundary prev rest = (isWordChar prev \<noteq> (case rest of [] \<Rightarrow> False | d # _ \<Rightarrow> isWordChar d))"

definition linkTld :: "jsstring \<Rightarrow> bool" where
  "linkTld s = list_ex (\<lambda>(c, rest). wordBoundary c rest) (consume isTldChar 6 s)"

definition linkHost :: "jsstring \<Rightarrow> bool" where
  "linkHost s =
     list_ex (\<lambda>(c, rest). case rest of [] \<Rightarrow> False | d # r \<Rightarrow> d = 0x2E \<and> linkTld r)
       (consume isHostChar 256 s)"

definition linkAfterScheme :: "jsstring \<Rightarrow> bool" where
  "linkAfterScheme s = (linkHost s \<or> (startsWith s (js ''www.'') \<and> linkHost (drop 4 s)))"

definition linkAt :: "jsstring \<Rightarrow> bool" where
  "linkAt s =
     ((startsWith s (js ''http://'') \<and> linkAfterScheme (drop 7 s)) \<or>
      (startsWith s (js ''https://'') \<and> linkAfterScheme (drop 8 s)))"

fun the_linkRegex :: "jsstring \<Rightarrow> bool" where
  "the_linkRegex [] = False"
| "the_linkRegex (c # cs) = (linkAt (c # cs) \<or> the_linkRegex cs)"

section \<open>Data model\<close>

text \<open>
  The parts of a discord.js message the code reads. \<open>reference\<close> is the id of the message
  replied to (\<open>reference.messageId\<close>), \<open>None\<close> when \<open>message.reference\<close> is null;
  \<open>client_user_id\<close> is \<open>message.client.user.id\<close>, the bot's own id. An embed's footer may be
  null, and the code also guards against a footer without text.
\<close>

record embedFooter =
  footer_text :: "jsstring option"

record embed =
  title :: "jsstring option"
  description :: "jsstring option"
  color :: "jsstring option"
  footer :: "embedFooter option"

record message =
  author_id :: jsstring
  author_tag :: jsstring
  content :: jsstring
  reference :: "jsstring option"
  embeds :: "embed list"
  client_user_id :: jsstring

record interaction =
  user_id :: jsstring

text \<open>A turn of the history, \<open>{ role: sender, parts: [{ text: content }] }\<close>.\<close>

datatype role = User | Model

record part =
  part_text :: "jsstring option"

record turn =
  role :: role
  parts :: "part list"

datatype deletionMarker = threadDeleted | slashCommand

text \<open>
  What a call can end with: a value, an exception, or the model's fuel running out (the
  reply chain is walked by a \<open>while\<close> loop with no bound of its own). \<open>ValidationError\<close> is
  what a setter of discord.js's \<open>EmbedBuilder\<close> throws when it is given a value that is no
  string.
\<close>

datatype error = DiscordAPIError int | ReferenceError | TypeError | ValidationError | OtherError

datatype 'a completion = Returns 'a | Throws error | OutOfFuel

text \<open>
  The platform: \<open>message.channel.messages.fetch(id)\<close> answers with a message or rejects.
  Every call the code makes to the platform is recorded, in order: a fetch with its
  outcome, a reply to the inbound message or to the interaction, an edit of the loading
  message. Replies and edits are taken to succeed.
\<close>

type_synonym channel = "jsstring \<Rightarrow> error + message"

record payload =
  payload_content :: "jsstring option"
  payload_embeds :: "embed list"

datatype event =
    Fetch jsstring "error + message"
  | MessageReply payload
  | InteractionReply payload
  | Edit payload

section \<open>Reconstructing the reply thread\<close>

definition unshift :: "'a \<Rightarrow> 'a list \<Rightarrow> 'a list" where
  "unshift x xs = x # xs"

definition mkTurn :: "role \<Rightarrow> jsstring option \<Rightarrow> turn" where
  "mkTurn r t = \<lparr>role = r, parts = [\<lparr>part_text = t\<rparr>]\<rparr>"

text \<open>\<open>currentMessage.embeds[0].footer?.text\<close>, for a message with at least one embed.\<close>

definition firstFooterText :: "message \<Rightarrow> jsstring option" where
  "firstFooterText m =
     (case embeds m of
        [] \<Rightarrow> None
      | e # _ \<Rightarrow> (case footer e of None \<Rightarrow> None | Some f \<Rightarrow> footer_text f))"

text \<open>
  The body of the \<open>while\<close> loop of \<open>getThreadMessages\<close> after the fetch: what it does to
  \<open>threadMessages\<close> for the fetched \<open>currentMessage\<close>. Both the \<open>continue\<close> and the end of the
  body lead back to the loop test with the fetched message as the cursor.
\<close>

definition loopBody :: "message \<Rightarrow> message \<Rightarrow> turn list \<Rightarrow> turn list" where
  "loopBody message currentMessage threadMessages =
     (let sender = (if author_id currentMessage = client_user_id message then Model else User)
      in if sender = User then
           unshift (mkTurn sender (Some (replaceMention (content currentMessage)))) threadMessages
         else if sender = Model \<and> 0 < length (embeds currentMessage) then
           (case firstFooterText currentMessage of
              None \<Rightarrow> unshift (mkTurn sender (Some (content currentMessage))) threadMessages
            | Some footerText \<Rightarrow>
                if startsWith footerText (js ''Response to message by'') then
                  (let userMessage = index (splitOn 10 footerText) 2
                   in unshift (mkTurn User userMessage)
                        (unshift (mkTurn sender (Some (content currentMessage))) threadMessages))
                else unshift (mkTurn sender (Some (content currentMessage))) threadMessages)
         else unshift (mkTurn sender (Some (content currentMessage))) threadMessages)"

text \<open>
  The loop, from the state \<open>(threadMessages, currentMessage)\<close>, with the calls it makes.
  A rejected fetch leaves the function as an exception.
\<close>

fun getThreadMessages_loop ::
  "nat \<Rightarrow> channel \<Rightarrow> (jsstring \<Rightarrow> bool) \<Rightarrow> message \<Rightarrow> turn list \<Rightarrow> message
     \<Rightarrow> turn list completion \<times> event list" where
  "getThreadMessages_loop n ch linkRegex message threadMessages currentMessage =
     (case reference currentMessage of
        None \<Rightarrow> (Returns threadMessages, [])
      | Some messageId \<Rightarrow>
          if author_id currentMessage = client_user_id message \<and>
             0 < length (embeds currentMessage) \<and>
             \<not> linkRegex (content currentMessage)
          then (Returns threadMessages, [])
          else (case n of
                  0 \<Rightarrow> (OutOfFuel, [])
                | Suc k \<Rightarrow>
                    (case ch messageId of
                       Inl e \<Rightarrow> (Throws e, [Fetch messageId (Inl e)])
                     | Inr fetched \<Rightarrow>
                         (case getThreadMessages_loop k ch linkRegex message
                                 (loopBody message fetched threadMessages) fetched of
                            (r, evs) \<Rightarrow> (r, Fetch messageId (Inr fetched) # evs)))))"

declare getThreadMessages_loop.simps [simp del]

definition getThreadMessages ::
  "nat \<Rightarrow> channel \<Rightarrow> message \<Rightarrow> (jsstring \<Rightarrow> bool) \<Rightarrow> turn list completion \<times> event list" where
  "getThreadMessages n ch message linkRegex = getThreadMessages_loop n ch linkRegex message [] message"

section \<open>The validity gate and \<open>fetchThreadMessages\<close>\<close>

text \<open>
  \<open>isInvalidOriginalMessage\<close> compares the author with \<open>message.client.user.id\<close>, but
  \<open>message\<close> is not one of its parameters. \<open>scope\<close> is what that free identifier is bound to
  where the function is defined: \<open>utils.js\<close> declares no \<open>message\<close> at module level
  (\<open>moduleScope\<close>), so evaluating it throws a ReferenceError, right after
  \<open>originalMessage.author.id\<close> has been read. With a binding the function decides as
  written.
\<close>

definition moduleScope :: "message option" where
  "moduleScope = None"

definition falsy :: "jsstring option \<Rightarrow> bool" where
  "falsy t = (case t of None \<Rightarrow> True | Some s \<Rightarrow> s = [])"

definition isInvalidOriginalMessage ::
  "message option \<Rightarrow> message \<Rightarrow> (jsstring \<Rightarrow> bool) \<Rightarrow> jsstring list \<Rightarrow> error + bool" where
  "isInvalidOriginalMessage scope originalMessage linkRegex startStrings =
     (case scope of
        None \<Rightarrow> Inl ReferenceError
      | Some message \<Rightarrow>
          Inr (author_id originalMessage \<noteq> client_user_id message \<or>
               (0 < length (embeds originalMessage) \<and>
                (footer (hd (embeds originalMessage)) = None \<or>
                 falsy (firstFooterText originalMessage) \<or>
                 \<not> list_ex (startsWith (the (firstFooterText originalMessage))) startStrings) \<and>
                \<not> linkRegex (content originalMessage))))"

definition the_startStrings :: "jsstring list" where
  "the_startStrings =
     [js ''Response to message by'', js ''A message has been deleted'', js ''Reply thread history'']"

text \<open>\<open>checkGeminiApiKey\<close>: the reply it sends (a truthy message) or undefined.\<close>

definition invalidApiEmbed :: embed where
  "invalidApiEmbed =
     \<lparr>title = Some ([0x26A0, 0xFE0F] @ js '' Invalid API Key''),
      description = Some (js ''> **The API Key for Gemini is invalid or not provided.**''),
      color = Some (js ''Red''),
      footer = None\<rparr>"

definition checkGeminiApiKey ::
  "jsstring option \<Rightarrow> interaction option \<Rightarrow> message \<Rightarrow> payload option \<times> event list" where
  "checkGeminiApiKey Gemini_API_KEY interaction message =
     (if falsy Gemini_API_KEY \<or> length (the Gemini_API_KEY) < 4 then
        (let reply = \<lparr>payload_content = None, payload_embeds = [invalidApiEmbed]\<rparr>
         in (Some reply, [if interaction \<noteq> None then InteractionReply reply else MessageReply reply]))
      else (None, []))"

text \<open>The object \<open>{ userQuestion, threadMessages, messageDeleted }\<close>; a field may be null or undefined.\<close>

record threadResult =
  res_userQuestion :: "jsstring option"
  res_threadMessages :: "turn list option"
  res_messageDeleted :: "deletionMarker option"

text \<open>
  The \<open>try\<close> block of \<open>fetchThreadMessages\<close>: it returns from the function (\<open>Inl\<close>), or ends
  with a value of \<open>threadMessages\<close> (\<open>Inr\<close>), or throws. Reading
  \<open>message.reference.messageId\<close> of a message that is no reply is a TypeError.
\<close>

definition tryBlock ::
  "nat \<Rightarrow> message option \<Rightarrow> channel \<Rightarrow> message
     \<Rightarrow> (threadResult + turn list) completion \<times> event list" where
  "tryBlock n scope ch message =
     (case reference message of
        None \<Rightarrow> (Throws TypeError, [])
      | Some messageId \<Rightarrow>
          (case ch messageId of
             Inl e \<Rightarrow> (Throws e, [Fetch messageId (Inl e)])
           | Inr originalMessage \<Rightarrow>
               (case isInvalidOriginalMessage scope originalMessage the_linkRegex the_startStrings of
                  Inl e \<Rightarrow> (Throws e, [Fetch messageId (Inr originalMessage)])
                | Inr True \<Rightarrow>
                    (Returns (Inl \<lparr>res_userQuestion = None, res_threadMessages = None,
                                   res_messageDeleted = Some threadDeleted\<rparr>),
                     [Fetch messageId (Inr originalMessage)])
                | Inr False \<Rightarrow>
                    if author_id originalMessage = client_user_id message then
                      (case getThreadMessages n ch message the_linkRegex of
                         (Returns ts, evs) \<Rightarrow>
                           (Returns (Inr ts), Fetch messageId (Inr originalMessage) # evs)
                       | (Throws e, evs) \<Rightarrow>
                           (Throws e, Fetch messageId (Inr originalMessage) # evs)
                       | (OutOfFuel, evs) \<Rightarrow>
                           (OutOfFuel, Fetch messageId (Inr originalMessage) # evs))
                    else (Returns (Inr []), [Fetch messageId (Inr originalMessage)]))))"

text \<open>
  \<open>fetchThreadMessages\<close>: \<open>Returns None\<close> is the bare \<open>return\<close> after the key check. The
  \<open>catch\<close> turns the platform's error 10008 (unknown message) into an empty history with
  the marker, and rethrows everything else.
\<close>

definition fetchThreadMessages ::
  "nat \<Rightarrow> message option \<Rightarrow> channel \<Rightarrow> jsstring option \<Rightarrow> message
     \<Rightarrow> threadResult option completion \<times> event list" where
  "fetchThreadMessages n scope ch Gemini_API_KEY message =
     (case checkGeminiApiKey Gemini_API_KEY None message of
        (Some sent, evs0) \<Rightarrow> (Returns None, evs0)
      | (None, evs0) \<Rightarrow>
          (case tryBlock n scope ch message of
             (Returns (Inl early), evs) \<Rightarrow> (Returns (Some early), evs0 @ evs)
           | (Returns (Inr ts), evs) \<Rightarrow>
               (Returns (Some \<lparr>res_userQuestion = Some (content message), res_threadMessages = Some ts,
                               res_messageDeleted = None\<rparr>), evs0 @ evs)
           | (Throws e, evs) \<Rightarrow>
               if e = DiscordAPIError 10008 then
                 (Returns (Some \<lparr>res_userQuestion = Some (content message), res_threadMessages = Some [],
                                 res_messageDeleted = Some threadDeleted\<rparr>), evs0 @ evs)
               else (Throws e, evs0 @ evs)
           | (OutOfFuel, evs) \<Rightarrow> (OutOfFuel, evs0 @ evs)))"

section \<open>Formatting errors and responses\<close>

subsection \<open>\<open>handleGeminiError\<close>\<close>

record errorResponse =
  er_title :: jsstring
  er_description :: jsstring
  er_color :: jsstring
  quotaError :: bool

definition warningTitle :: jsstring where
  "warningTitle = [0x26A0, 0xFE0F] @ js '' An Error Occurred''"

definition safetyMessage :: jsstring where
  "safetyMessage = js ''[GoogleGenerativeAI Error]: Candidate was blocked due to SAFETY''"

definition fetchingFrom :: jsstring where
  "fetchingFrom = js ''[GoogleGenerativeAI Error]: Error fetching from https://generativelanguage.googleapis.com/v1beta/models/gemini-1.5-pro-latest:generateContent: ''"

definition locationMessage :: jsstring where
  "locationMessage = fetchingFrom @ js ''[400 Bad Request] User location is not supported for the API use.''"

definition quotaMessage :: jsstring where
  "quotaMessage = fetchingFrom @ js ''[429 Too Many Requests] Resource has been exhausted (e.g. check quota).''"

definition emptyMessage :: jsstring where
  "emptyMessage = js ''Cannot send an empty message''"

definition internalMessage :: jsstring where
  "internalMessage = fetchingFrom @ js ''[500 Internal Server Error] An internal error has occurred. Please retry or report in https://developers.generativeai.google/guide/troubleshooting''"

definition defaultResponse :: errorResponse where
  "defaultResponse =
     \<lparr>er_title = warningTitle,
      er_description = js ''An unknown error occurred while processing your request. Please try again later, or in a few minutes. \<newline>'' @ [0x25B8] @ js '' *If this issue persists, please contact the Developers.*\<newline>> - Token Limit for this minute may have been reached.'',
      er_color = js ''Red'', quotaError = False\<rparr>"

definition quotaResponse :: errorResponse where
  "quotaResponse =
     \<lparr>er_title = warningTitle,
      er_description = js ''There are a lot of requests at the moment. Please try again later, or in a few minutes. \<newline>'' @ [0x25B8] @ js '' *If this issue persists after a few minutes, please contact the Developers.* \<newline> - *We are aware of these issues and apologize for the inconvenience.* \<newline>> - Token Limit for this minute has been reached.'',
      er_color = js ''Red'', quotaError = True\<rparr>"

text \<open>The own properties of the object literal \<open>errorResponses\<close>, the entry \<open>default\<close> among them.\<close>

definition errorResponses :: "(jsstring \<times> errorResponse) list" where
  "errorResponses =
     [(safetyMessage,
       \<lparr>er_title = warningTitle,
        er_description = js ''> *The response was blocked due to **SAFETY**.* \<newline>- *Result based on your input. Safety Blocking may not be 100% correct.*'',
        er_color = js ''Red'', quotaError = False\<rparr>),
      (locationMessage,
       \<lparr>er_title = warningTitle,
        er_description = js ''> *The user location is not supported for Gemini API use. Please contact the Developers.*'',
        er_color = js ''Red'', quotaError = False\<rparr>),
      (quotaMessage, quotaResponse),
      (emptyMessage,
       \<lparr>er_title = warningTitle,
        er_description = js ''An error occurred while processing your request. Please try again later, or in a few minutes. \<newline>'' @ [0x25B8] @ js '' *If this issue persists, please contact the Developers.* \<newline>> - Generated response may be too long. *(Fix this by specifying for the generated response to be smaller, e.g. 10 Lines)*\<newline>> - Token Limit for this minute may have been reached.'',
        er_color = js ''Red'', quotaError = False\<rparr>),
      (internalMessage,
       \<lparr>er_title = warningTitle,
        er_description = js ''An error occurred while processing your request. This error originated from Google's side, not ours.  \<newline>'' @ [0x25B8] @ js '' *If this issue persists, please contact the Developers.* \<newline>> - Please retry and make another request.'',
        er_color = js ''Red'', quotaError = False\<rparr>),
      (js ''default'', defaultResponse)]"

text \<open>
  \<open>errorResponses[err.message]\<close> also finds what a plain object inherits from
  \<open>Object.prototype\<close>: a function or object that is truthy and has none of the fields
  \<open>title\<close>, \<open>description\<close>, \<open>color\<close>, \<open>quotaError\<close>.
\<close>

definition objectPrototypeKeys :: "jsstring list" where
  "objectPrototypeKeys =
     [js ''constructor'', js ''hasOwnProperty'', js ''isPrototypeOf'', js ''propertyIsEnumerable'',
      js ''toLocaleString'', js ''toString'', js ''valueOf'', js ''__proto__'',
      js ''__defineGetter__'', js ''__defineSetter__'', js ''__lookupGetter__'',
      js ''__lookupSetter__'']"

datatype property = Own errorResponse | Inherited

definition lookupErrorResponse :: "jsstring \<Rightarrow> property" where
  "lookupErrorResponse msg =
     (case map_of errorResponses msg of
        Some r \<Rightarrow> Own r
      | None \<Rightarrow> if msg \<in> set objectPrototypeKeys then Inherited else Own defaultResponse)"

text \<open>
  \<open>new EmbedBuilder().setTitle(errorResponse.title).setDescription(...).setColor(...)\<close>: for
  an entry of the table the embed with its three fields. A field read from an inherited
  property is undefined, and \<open>setTitle(undefined)\<close> throws: no embed is built.
\<close>

definition errorEmbed :: "property \<Rightarrow> error + embed" where
  "errorEmbed p =
     (case p of
        Own r \<Rightarrow> Inr \<lparr>title = Some (er_title r), description = Some (er_description r),
                       color = Some (er_color r), footer = None\<rparr>
      | Inherited \<Rightarrow> Inl ValidationError)"

definition isQuotaError :: "property \<Rightarrow> bool" where
  "isQuotaError p = (case p of Own r \<Rightarrow> quotaError r | Inherited \<Rightarrow> False)"

definition retryFooter :: "nat \<Rightarrow> embedFooter" where
  "retryFooter i =
     \<lparr>footer_text = Some ([0x23F1, 0xFE0F] @ js '' Retrying request in ('' @ decimal i @ js '')'')\<rparr>"

text \<open>
  \<open>for (let i = ...; i > 0; i--)\<close>: each round sets the footer and edits the loading message
  (and then waits a second, which the model does not record).
\<close>

fun countdown :: "embed \<Rightarrow> nat \<Rightarrow> event list" where
  "countdown e 0 = []"
| "countdown e (Suc i) =
     Edit \<lparr>payload_content = None, payload_embeds = [e\<lparr>footer := Some (retryFooter (Suc i))\<rparr>]\<rparr>
       # countdown e i"

definition handleGeminiError :: "jsstring \<Rightarrow> jsstring option completion \<times> event list" where
  "handleGeminiError err_message =
     (let errorResponse = lookupErrorResponse err_message
      in case errorEmbed errorResponse of
           Inl thrown \<Rightarrow> (Throws thrown, [])
         | Inr e \<Rightarrow>
             if isQuotaError errorResponse then (Returns (Some (js ''quota_error'')), countdown e 10)
             else (Returns None, [Edit \<lparr>payload_content = None, payload_embeds = [e]\<rparr>]))"

subsection \<open>\<open>handleResponse\<close>\<close>

definition truncationSuffix :: jsstring where
  "truncationSuffix = js ''... \<newline>\<newline>*Response was cut short due to Discord's character limit of 2000*''"

text \<open>Lines 96 to 98: \<open>responseText\<close> after the length check.\<close>

definition truncateResponse :: "jsstring \<Rightarrow> jsstring" where
  "truncateResponse text0 =
     (if 2000 < length text0 then take 1936 text0 @ truncationSuffix else text0)"

text \<open>\<open>message?.author?.id || interaction.user.id\<close>; a caller passes a falsy value for the one it has not.\<close>

definition requesterId :: "message option \<Rightarrow> interaction option \<Rightarrow> error + jsstring" where
  "requesterId message interaction =
     (case message of
        Some m \<Rightarrow>
          if author_id m \<noteq> [] then Inr (author_id m)
          else (case interaction of None \<Rightarrow> Inl TypeError | Some i \<Rightarrow> Inr (user_id i))
      | None \<Rightarrow> (case interaction of None \<Rightarrow> Inl TypeError | Some i \<Rightarrow> Inr (user_id i)))"

definition pingError :: embed where
  "pingError =
     \<lparr>title = Some ([0x26A0, 0xFE0F] @ js '' Response Cannot Be Sent''),
      description = Some (js ''> *The generated message contains a mention of a Role or different User to the one that sent the original message/command.*''),
      color = Some (js ''Red''),
      footer = None\<rparr>"

text \<open>A match is a proper piece of the text, so the text left for the next \<open>exec\<close> is shorter.\<close>

lemma matchMention_append: "matchMention amp s = Some (m, rest) \<Longrightarrow> s = m @ rest \<and> m \<noteq> []"
proof (induction amp s rule: matchMention.induct)
  case (1 amp a b r)
  define opt where "opt = (if amp \<and> take 1 r = [0x26] then [0x26 :: jschar] else [])"
  have r: "r = opt @ drop (length opt) r"
    by (cases r) (auto simp: opt_def)
  have td: "drop (length opt) r = takeWhile isDigit (drop (length opt) r) @ dropWhile isDigit (drop (length opt) r)"
    by simp
  from "1.prems" obtain c where
    m: "m = [0x3C, 0x40] @ opt @ takeWhile isDigit (drop (length opt) r) @ [0x3E]"
    and d: "dropWhile isDigit (drop (length opt) r) = c # rest" and c: "c = 0x3E" and ab: "a = 0x3C" "b = 0x40"
    by (auto simp: Let_def opt_def split: if_splits list.splits)
  have "a # b # r = [a, b] @ opt @ takeWhile isDigit (drop (length opt) r) @ (c # rest)"
    using r td d by (metis append_Cons append_Nil)
  then show ?case using m c ab by simp
qed simp_all

lemma regexExec_length: "regexExec s = Some (m, rest) \<Longrightarrow> length rest < length s"
proof (induction s)
  case Nil
  then show ?case by simp
next
  case (Cons c cs)
  show ?case
  proof (cases "matchMention True (c # cs)")
    case None
    with Cons show ?thesis by auto
  next
    case (Some r)
    with Cons.prems have "matchMention True (c # cs) = Some (m, rest)" by simp
    from matchMention_append [OF this] have "length (c # cs) = length m + length rest" "m \<noteq> []"
      by (metis length_append, simp)
    then show ?thesis by (cases m) auto
  qed
qed

text \<open>
  The \<open>while\<close> loop of \<open>handleResponse\<close> over the matches of \<open>/<@&?\d+>/g\<close>: \<open>Inr True\<close> when it
  leaves through the mismatch branch, \<open>Inr False\<close> when \<open>exec\<close> finds no further match. The
  requester's id is evaluated inside the loop, for each match.
\<close>

function mentionLoop :: "error + jsstring \<Rightarrow> jsstring \<Rightarrow> error + bool" where
  "mentionLoop idr s =
     (case regexExec s of
        None \<Rightarrow> Inr False
      | Some (m, rest) \<Rightarrow>
          (case idr of
             Inl e \<Rightarrow> Inl e
           | Inr id' \<Rightarrow>
               if m \<noteq> js ''<@'' @ id' @ js ''>'' then Inr True else mentionLoop idr rest))"
  by pat_completeness auto
termination
  by (relation "measure (\<lambda>(idr, s). length s)") (auto dest: regexExec_length)

declare mentionLoop.simps [simp del]

definition deletedThread :: embed where
  "deletedThread =
     \<lparr>title = None, description = None, color = Some (js ''Orange''),
      footer = Some \<lparr>footer_text = Some (js ''A message has been deleted/is not accessible in the reply thread, Taurus does not know the past reply thread history.'')\<rparr>\<rparr>"

definition deletedSlashCommand :: embed where
  "deletedSlashCommand =
     \<lparr>title = None, description = None, color = Some (js ''Orange''),
      footer = Some \<lparr>footer_text = Some (js ''Reply thread history not accessible, utilize history by mentioning me to chat instead.'')\<rparr>\<rparr>"

definition createInfoEmbed :: "bool \<Rightarrow> message option \<Rightarrow> deletionMarker option \<Rightarrow> error + embed list" where
  "createInfoEmbed isContextMenuCommand message messageDeleted =
     (case (if isContextMenuCommand then
              (case message of
                 None \<Rightarrow> Inl TypeError
               | Some m \<Rightarrow>
                   (let footerText = js ''Response to message by '' @ author_tag m @ js ''\<newline>\<newline>'' @ content m;
                        truncatedFooterText =
                          (if 2030 < length footerText then take 2027 footerText @ js ''...''
                           else footerText)
                    in Inr [\<lparr>title = None, description = None, color = Some (js ''Blue''),
                             footer = Some \<lparr>footer_text = Some truncatedFooterText\<rparr>\<rparr>]))
            else Inr []) of
        Inl e \<Rightarrow> Inl e
      | Inr infoEmbed \<Rightarrow>
          Inr (infoEmbed @
               (case messageDeleted of
                  Some threadDeleted \<Rightarrow> [deletedThread]
                | Some slashCommand \<Rightarrow> [deletedSlashCommand]
                | None \<Rightarrow> [])))"

text \<open>
  \<open>handleResponse\<close>: \<open>chat\<close> stands for \<open>chat.sendMessage(userQuestion)\<close> followed by
  \<open>response.text()\<close>, the model's text or the error the client throws.
\<close>

definition handleResponse ::
  "(jsstring \<Rightarrow> error + jsstring) \<Rightarrow> jsstring \<Rightarrow> interaction option \<Rightarrow> message option
     \<Rightarrow> deletionMarker option \<Rightarrow> bool \<Rightarrow> unit completion \<times> event list" where
  "handleResponse chat userQuestion interaction message messageDeleted isContextMenuCommand =
     (case chat userQuestion of
        Inl e \<Rightarrow> (Throws e, [])
      | Inr text0 \<Rightarrow>
          (let responseText = truncateResponse text0
           in (case mentionLoop (requesterId message interaction) responseText of
                 Inl e \<Rightarrow> (Throws e, [])
               | Inr True \<Rightarrow>
                   (Returns (), [Edit \<lparr>payload_content = None, payload_embeds = [pingError]\<rparr>])
               | Inr False \<Rightarrow>
                   (case createInfoEmbed isContextMenuCommand message messageDeleted of
                      Inl e \<Rightarrow> (Throws e, [])
                    | Inr infoEmbed \<Rightarrow>
                        (Returns (),
                         [Edit \<lparr>payload_content = Some responseText, payload_embeds = infoEmbed\<rparr>])))))"

section \<open>Notions the properties are stated with\<close>

text \<open>
  The messages a run fetched, in the order of the walk (the message replied to first), and
  the turns the loop body records for one fetched message.
\<close>

fun fetchedMessages :: "event list \<Rightarrow> message list" where
  "fetchedMessages [] = []"
| "fetchedMessages (Fetch i (Inr m) # evs) = m # fetchedMessages evs"
| "fetchedMessages (e # evs) = fetchedMessages evs"

definition turnsOf :: "message \<Rightarrow> message \<Rightarrow> turn list" where
  "turnsOf message m = loopBody message m []"

text \<open>The branch of the loop body that records a quoted user turn before the model's turn.\<close>

definition synthesizesQuote :: "message \<Rightarrow> message \<Rightarrow> bool" where
  "synthesizesQuote message m =
     (author_id m = client_user_id message \<and> embeds m \<noteq> [] \<and>
      (case firstFooterText m of None \<Rightarrow> False | Some t \<Rightarrow> startsWith t (js ''Response to message by'')))"

text \<open>
  A reply is younger than the message it answers: \<open>age\<close> is any measure of time (the creation
  timestamp, say) under which every message the channel delivers for a reference is
  older than the message holding the reference. No chain is circular then.
\<close>

definition repliesToOlder :: "(message \<Rightarrow> nat) \<Rightarrow> channel \<Rightarrow> bool" where
  "repliesToOlder age ch = (\<forall>m i m'. reference m = Some i \<and> ch i = Inr m' \<longrightarrow> age m' < age m)"

text \<open>The fetches of a run that the platform rejected, with the error of each.\<close>

fun fetchFailures :: "event list \<Rightarrow> (jsstring \<times> error) list" where
  "fetchFailures [] = []"
| "fetchFailures (Fetch i (Inl e) # evs) = (i, e) # fetchFailures evs"
| "fetchFailures (ev # evs) = fetchFailures evs"

text \<open>
  The reply chain of a message, as the platform holds it: the message it replies to, the
  one that replies to, and so on while the reference can be fetched (the fuel bounds the
  length; where replies answer older messages, a fuel above the age gives the whole
  chain). Its length is the depth of the chain.
\<close>

fun replyChain :: "nat \<Rightarrow> channel \<Rightarrow> message \<Rightarrow> message list" where
  "replyChain 0 ch m = []"
| "replyChain (Suc n) ch m =
     (case reference m of
        None \<Rightarrow> []
      | Some i \<Rightarrow> (case ch i of Inl e \<Rightarrow> [] | Inr m' \<Rightarrow> m' # replyChain n ch m'))"

text \<open>
  The stopping condition of the walk: a message of the bot with at least one embed whose
  content has no link. The walk fetches such a message and records it, and goes no
  further; if the inbound message is one, nothing is fetched. \<open>walkedMessages\<close> are the
  messages of the chain up to and including the first that ends the walk.
\<close>

definition endsWalk :: "(jsstring \<Rightarrow> bool) \<Rightarrow> message \<Rightarrow> message \<Rightarrow> bool" where
  "endsWalk linkRegex message m =
     (author_id m = client_user_id message \<and> embeds m \<noteq> [] \<and> \<not> linkRegex (content m))"

fun upToFirst :: "('a \<Rightarrow> bool) \<Rightarrow> 'a list \<Rightarrow> 'a list" where
  "upToFirst P [] = []"
| "upToFirst P (x # xs) = (if P x then [x] else x # upToFirst P xs)"

definition walkedMessages :: "nat \<Rightarrow> channel \<Rightarrow> (jsstring \<Rightarrow> bool) \<Rightarrow> message \<Rightarrow> message list" where
  "walkedMessages n ch linkRegex message =
     (if endsWalk linkRegex message message then []
      else upToFirst (endsWalk linkRegex message) (replyChain n ch message))"

text \<open>
  A mention-like token: \<open><@\<close>, digits, \<open>>\<close>, which mentions a user, or with \<open>amp\<close> also
  \<open><@&\<close>, digits, \<open>>\<close>, which mentions a role. A text contains a token when the token is a
  piece of it.
\<close>

inductive mentionToken :: "bool \<Rightarrow> jsstring \<Rightarrow> bool" where
  user: "ds \<noteq> [] \<Longrightarrow> list_all isDigit ds \<Longrightarrow> mentionToken amp (js ''<@'' @ ds @ js ''>'')"
| role: "ds \<noteq> [] \<Longrightarrow> list_all isDigit ds \<Longrightarrow> mentionToken True (js ''<@&'' @ ds @ js ''>'')"

definition containsToken :: "bool \<Rightarrow> jsstring \<Rightarrow> bool" where
  "containsToken amp s = (\<exists>p t q. s = p @ t @ q \<and> mentionToken amp t)"

section \<open>Example chains\<close>

text \<open>
  The bot has id 1. The user 456 replies to \<open>a\<close>, the bot's plain answer to the user's
  question \<open>b\<close>, which was a reply to \<open>c\<close>, the bot's answer to a context-menu command with
  the quoted question in its footer.
\<close>

definition ex_bot :: jsstring where "ex_bot = js ''1''"

definition ex_quoteText :: jsstring where
  "ex_quoteText = js ''Response to message by u#1\<newline>\<newline>hello bot''"

definition ex_quote :: embed where
  "ex_quote =
     \<lparr>title = None, description = None, color = Some (js ''Blue''),
      footer = Some \<lparr>footer_text = Some ex_quoteText\<rparr>\<rparr>"

definition ex_inbound :: message where
  "ex_inbound =
     \<lparr>author_id = js ''456'', author_tag = js ''u#1'', content = js ''<@1> and then?'',
      reference = Some (js ''a''), embeds = [], client_user_id = ex_bot\<rparr>"

definition ex_a :: message where
  "ex_a =
     \<lparr>author_id = ex_bot, author_tag = js ''Taurus#1'', content = js ''It is 4.'',
      reference = Some (js ''b''), embeds = [], client_user_id = ex_bot\<rparr>"

definition ex_b :: message where
  "ex_b =
     \<lparr>author_id = js ''456'', author_tag = js ''u#1'', content = js ''<@1> what is 2+2?'',
      reference = Some (js ''c''), embeds = [], client_user_id = ex_bot\<rparr>"

definition ex_c :: message where
  "ex_c =
     \<lparr>author_id = ex_bot, author_tag = js ''Taurus#1'', content = js ''Hello!'',
      reference = None, embeds = [ex_quote], client_user_id = ex_bot\<rparr>"

definition ex_channel :: channel where
  "ex_channel i =
     (if i = js ''a'' then Inr ex_a
      else if i = js ''b'' then Inr ex_b
      else if i = js ''c'' then Inr ex_c
      else Inl (DiscordAPIError 10008))"

definition ex_age :: "message \<Rightarrow> nat" where
  "ex_age m =
     (case reference m of
        None \<Rightarrow> 0
      | Some i \<Rightarrow> if i = js ''c'' then 1 else if i = js ''b'' then 2 else if i = js ''a'' then 3 else 4)"

text \<open>
  A user's message with a mention in the middle, and a chat client that answers every
  question with a given text.
\<close>

definition cex_midMention :: message where
  "cex_midMention =
     \<lparr>author_id = js ''456'', author_tag = js ''u#1'', content = js ''hi <@123> there'',
      reference = None, embeds = [], client_user_id = ex_bot\<rparr>"

definition ex_chat :: "jsstring \<Rightarrow> jsstring \<Rightarrow> error + jsstring" where
  "ex_chat answer userQuestion = Inr answer"

text \<open>
  Two answers of the bot in a row, each to a context-menu command and each with a link in
  its content, so that the walk passes through both.
\<close>

definition cex_link_a :: message where
  "cex_link_a =
     \<lparr>author_id = ex_bot, author_tag = js ''Taurus#1'', content = js ''see https://a.bc'',
      reference = Some (js ''b''), embeds = [ex_quote], client_user_id = ex_bot\<rparr>"

definition cex_link_b :: message where
  "cex_link_b =
     \<lparr>author_id = ex_bot, author_tag = js ''Taurus#1'', content = js ''more at https://a.bc'',
      reference = None, embeds = [ex_quote], client_user_id = ex_bot\<rparr>"

definition cex_link_channel :: channel where
  "cex_link_channel i =
     (if i = js ''a'' then Inr cex_link_a
      else if i = js ''b'' then Inr cex_link_b
      else Inl (DiscordAPIError 10008))"

text \<open>An answer of the bot whose quoting footer is on its second embed.\<close>

definition cex_secondEmbed :: message where
  "cex_secondEmbed =
     \<lparr>author_id = ex_bot, author_tag = js ''Taurus#1'', content = js ''Hello!'',
      reference = None,
      embeds = [\<lparr>title = Some (js ''Note''), description = None, color = None, footer = None\<rparr>, ex_quote],
      client_user_id = ex_bot\<rparr>"

definition cex_secondEmbed_channel :: channel where
  "cex_secondEmbed_channel i =
     (if i = js ''a'' then Inr cex_secondEmbed else Inl (DiscordAPIError 10008))"

text \<open>
  A channel where the message \<open>b\<close> (and every other but \<open>a\<close>) has been deleted; a key that
  passes the check; a reply to a deleted message; and a channel where \<open>a\<close> was written by
  another user.
\<close>

definition ex_broken :: channel where
  "ex_broken i = (if i = js ''a'' then Inr ex_a else Inl (DiscordAPIError 10008))"

definition ex_key :: "jsstring option" where
  "ex_key = Some (js ''AIza-key'')"

definition ex_stranger :: message where
  "ex_stranger =
     \<lparr>author_id = js ''789'', author_tag = js ''v#2'', content = js ''good morning'',
      reference = None, embeds = [], client_user_id = ex_bot\<rparr>"

definition ex_stranger_channel :: channel where
  "ex_stranger_channel i = (if i = js ''a'' then Inr ex_stranger else Inl (DiscordAPIError 10008))"

definition ex_orphan :: message where
  "ex_orphan =
     \<lparr>author_id = js ''456'', author_tag = js ''u#1'', content = js ''<@1> still there?'',
      reference = Some (js ''gone''), embeds = [], client_user_id = ex_bot\<rparr>"

text \<open>
  A chain of depth 3 whose first message is an answer of the bot that carries the notice
  of a deleted thread and no link.
\<close>

definition cex_notice_a :: message where
  "cex_notice_a =
     \<lparr>author_id = ex_bot, author_tag = js ''Taurus#1'', content = js ''It is 4.'',
      reference = Some (js ''b''), embeds = [deletedThread], client_user_id = ex_bot\<rparr>"

definition cex_notice_channel :: channel where
  "cex_notice_channel i =
     (if i = js ''a'' then Inr cex_notice_a
      else if i = js ''b'' then Inr ex_b
      else if i = js ''c'' then Inr ex_c
      else Inl (DiscordAPIError 10008))"

section \<open>The walk of the reply chain\<close>

lemmas charClasses = isDigit_def isSpace_def isAlnum_def isWordChar_def isHostChar_def isTldChar_def

lemmas examples = ex_bot_def ex_quoteText_def ex_quote_def ex_inbound_def ex_a_def ex_b_def ex_c_def ex_channel_def

lemma loopBody_prepend: "loopBody message m ts = turnsOf message m @ ts"
  by (simp add: loopBody_def turnsOf_def unshift_def Let_def split: option.splits)

lemma length_turnsOf:
  "length (turnsOf message m) = (if synthesizesQuote message m then 2 else 1)"
  by (simp add: loopBody_def turnsOf_def unshift_def Let_def synthesizesQuote_def split: option.splits)

lemma loop_result:
  "getThreadMessages_loop n ch lr message ts cur = (Returns out, evs) \<Longrightarrow>
   out = concat (map (turnsOf message) (rev (fetchedMessages evs))) @ ts \<and>
   length (fetchedMessages evs) = length evs"
proof (induction n arbitrary: ts cur out evs)
  case 0
  then show ?case
    by (subst (asm) getThreadMessages_loop.simps) (auto split: option.splits if_splits)
next
  case (Suc n)
  show ?case
  proof (cases "reference cur")
    case None
    with Suc.prems show ?thesis
      by (subst (asm) getThreadMessages_loop.simps) auto
  next
    case (Some i)
    show ?thesis
    proof (cases "author_id cur = client_user_id message \<and> 0 < length (embeds cur) \<and> \<not> lr (content cur)")
      case True
      with Some Suc.prems show ?thesis
        by (subst (asm) getThreadMessages_loop.simps) auto
    next
      case False
      with Some Suc.prems obtain m evs' where
        m: "ch i = Inr m" and evs: "evs = Fetch i (Inr m) # evs'"
        and rec: "getThreadMessages_loop n ch lr message (loopBody message m ts) m = (Returns out, evs')"
        by (subst (asm) getThreadMessages_loop.simps) (auto split: sum.splits prod.splits)
      from Suc.IH [OF rec] have
        "out = concat (map (turnsOf message) (rev (fetchedMessages evs'))) @ loopBody message m ts"
        and "length (fetchedMessages evs') = length evs'"
        by auto
      then show ?thesis using evs
        by (simp add: loopBody_prepend)
    qed
  qed
qed

lemma loop_unfold_fetch:
  assumes "reference cur = Some i"
    and "\<not> (author_id cur = client_user_id message \<and> 0 < length (embeds cur) \<and> \<not> lr (content cur))"
  shows "getThreadMessages_loop (Suc n) ch lr message ts cur =
     (case ch i of
        Inl e \<Rightarrow> (Throws e, [Fetch i (Inl e)])
      | Inr m \<Rightarrow>
          (fst (getThreadMessages_loop n ch lr message (loopBody message m ts) m),
           Fetch i (Inr m) # snd (getThreadMessages_loop n ch lr message (loopBody message m ts) m)))"
  using assms
  by (subst getThreadMessages_loop.simps) (auto split: sum.splits prod.splits)

lemma loop_stops:
  assumes "reference cur = None \<or>
           (author_id cur = client_user_id message \<and> 0 < length (embeds cur) \<and> \<not> lr (content cur))"
  shows "getThreadMessages_loop n ch lr message ts cur = (Returns ts, [])"
  using assms
  by (subst getThreadMessages_loop.simps) (auto split: option.splits)

lemma loop_enough_fuel:
  "repliesToOlder age ch \<Longrightarrow> age cur < n \<Longrightarrow>
   fst (getThreadMessages_loop n ch lr message ts cur) \<noteq> OutOfFuel"
proof (induction n arbitrary: ts cur)
  case 0
  then show ?case by simp
next
  case (Suc n)
  show ?case
  proof (cases "reference cur = None \<or>
           (author_id cur = client_user_id message \<and> 0 < length (embeds cur) \<and> \<not> lr (content cur))")
    case True
    then show ?thesis by (simp add: loop_stops)
  next
    case False
    then obtain i where i: "reference cur = Some i" by auto
    show ?thesis
    proof (cases "ch i")
      case (Inl e)
      with False i show ?thesis by (simp add: loop_unfold_fetch)
    next
      case (Inr m)
      with i Suc.prems(1) have "age m < age cur"
        unfolding repliesToOlder_def by blast
      with Suc.prems(2) have "age m < n" by simp
      from Suc.IH [OF Suc.prems(1) this] Inr False i show ?thesis
        by (simp add: loop_unfold_fetch)
    qed
  qed
qed

text \<open>
  The fuel only bounds the run: once a run ends with a value or an exception, more fuel
  gives the same run.
\<close>

lemma loop_more_fuel:
  "fst (getThreadMessages_loop n ch lr message ts cur) \<noteq> OutOfFuel \<Longrightarrow>
   getThreadMessages_loop (n + k) ch lr message ts cur = getThreadMessages_loop n ch lr message ts cur"
proof (induction n arbitrary: ts cur)
  case 0
  then have "reference cur = None \<or>
      (author_id cur = client_user_id message \<and> 0 < length (embeds cur) \<and> \<not> lr (content cur))"
    by (subst (asm) getThreadMessages_loop.simps) (auto split: option.splits if_splits)
  then show ?case by (simp add: loop_stops)
next
  case (Suc n)
  show ?case
  proof (cases "reference cur = None \<or>
           (author_id cur = client_user_id message \<and> 0 < length (embeds cur) \<and> \<not> lr (content cur))")
    case True
    then show ?thesis by (simp add: loop_stops)
  next
    case False
    then obtain i where i: "reference cur = Some i" by auto
    show ?thesis
    proof (cases "ch i")
      case (Inl e)
      with False i show ?thesis by (simp add: loop_unfold_fetch)
    next
      case (Inr m)
      with False i Suc.prems
      have "fst (getThreadMessages_loop n ch lr message (loopBody message m ts) m) \<noteq> OutOfFuel"
        by (simp add: loop_unfold_fetch)
      from Suc.IH [OF this] Inr False i show ?thesis
        by (simp add: loop_unfold_fetch)
    qed
  qed
qed

lemma loop_ages:
  "repliesToOlder age ch \<Longrightarrow> getThreadMessages_loop n ch lr message ts cur = (r, evs) \<Longrightarrow>
   sorted_wrt (\<lambda>a b. b < a) (map age (fetchedMessages evs)) \<and>
   (\<forall>m \<in> set (fetchedMessages evs). age m < age cur)"
proof (induction n arbitrary: ts cur r evs)
  case 0
  then show ?case
    by (subst (asm) getThreadMessages_loop.simps) (auto split: option.splits if_splits)
next
  case (Suc n)
  show ?case
  proof (cases "reference cur = None \<or>
           (author_id cur = client_user_id message \<and> 0 < length (embeds cur) \<and> \<not> lr (content cur))")
    case True
    with Suc.prems show ?thesis by (simp add: loop_stops)
  next
    case False
    then obtain i where i: "reference cur = Some i" by auto
    show ?thesis
    proof (cases "ch i")
      case (Inl e)
      with False i Suc.prems show ?thesis by (auto simp: loop_unfold_fetch)
    next
      case (Inr m)
      with i Suc.prems(1) have lt: "age m < age cur"
        unfolding repliesToOlder_def by blast
      obtain r' evs' where rec: "getThreadMessages_loop n ch lr message (loopBody message m ts) m = (r', evs')"
        by (cases "getThreadMessages_loop n ch lr message (loopBody message m ts) m")
      with Inr False i Suc.prems have evs: "evs = Fetch i (Inr m) # evs'"
        by (auto simp: loop_unfold_fetch)
      from Suc.IH [OF Suc.prems(1) rec] lt evs show ?thesis by fastforce
    qed
  qed
qed

lemma ex_older: "repliesToOlder ex_age ex_channel"
  by (simp add: repliesToOlder_def ex_age_def examples js_def split: if_splits)

lemma ex_walk:
  "getThreadMessages (Suc (Suc (Suc n))) ex_channel ex_inbound lr =
     (Returns [mkTurn User (Some (js ''hello bot'')), mkTurn Model (Some (js ''Hello!'')),
               mkTurn User (Some (js ''what is 2+2?'')), mkTurn Model (Some (js ''It is 4.''))],
      [Fetch (js ''a'') (Inr ex_a), Fetch (js ''b'') (Inr ex_b), Fetch (js ''c'') (Inr ex_c)])"
  by (simp add: getThreadMessages_def loop_unfold_fetch loop_stops loopBody_def unshift_def
      firstFooterText_def startsWith_def examples js_def charClasses)

text \<open>
  C1: the turns \<open>getThreadMessages\<close> returns are in chronological order, oldest first. The
  walk fetches the newest message first and every turn is put in front of what was
  gathered, so the result lists the fetched messages in the reverse of the order they
  were fetched, each with its own turns (a quoted user turn before the model's turn).
  Where every reply answers an older message, that order is by strictly increasing age,
  and the walk ends once the fuel exceeds the age of the inbound message.
\<close>

theorem getThreadMessages_chronological:
  "(\<forall>ts evs. getThreadMessages n ch message linkRegex = (Returns ts, evs) \<longrightarrow>
      ts = concat (map (turnsOf message) (rev (fetchedMessages evs)))) \<and>
   (repliesToOlder age ch \<longrightarrow>
      sorted_wrt (<)
        (map age (rev (fetchedMessages (snd (getThreadMessages n ch message linkRegex))))) \<and>
      (age message < n \<longrightarrow> fst (getThreadMessages n ch message linkRegex) \<noteq> OutOfFuel))"
proof (intro conjI allI impI)
  fix ts evs
  assume "getThreadMessages n ch message linkRegex = (Returns ts, evs)"
  then show "ts = concat (map (turnsOf message) (rev (fetchedMessages evs)))"
    unfolding getThreadMessages_def by (auto dest: loop_result)
next
  assume older: "repliesToOlder age ch"
  obtain r evs where run: "getThreadMessages_loop n ch linkRegex message [] message = (r, evs)"
    by (cases "getThreadMessages_loop n ch linkRegex message [] message")
  from loop_ages [OF older run] have "sorted_wrt (\<lambda>a b. b < a) (map age (fetchedMessages evs))"
    by simp
  then have "sorted_wrt (<) (map age (rev (fetchedMessages evs)))"
    by (simp add: rev_map [symmetric] sorted_wrt_rev)
  with run show "sorted_wrt (<)
      (map age (rev (fetchedMessages (snd (getThreadMessages n ch message linkRegex)))))"
    by (simp add: getThreadMessages_def)
  assume "age message < n"
  with older show "fst (getThreadMessages n ch message linkRegex) \<noteq> OutOfFuel"
    unfolding getThreadMessages_def by (rule loop_enough_fuel)
qed

theorem getThreadMessages_chronological_witness:
  "repliesToOlder ex_age ex_channel \<and> ex_age ex_inbound < 4 \<and>
   getThreadMessages 4 ex_channel ex_inbound the_linkRegex =
     (Returns (concat (map (turnsOf ex_inbound) [ex_c, ex_b, ex_a])),
      [Fetch (js ''a'') (Inr ex_a), Fetch (js ''b'') (Inr ex_b), Fetch (js ''c'') (Inr ex_c)]) \<and>
   concat (map (turnsOf ex_inbound) [ex_c, ex_b, ex_a]) =
     [mkTurn User (Some (js ''hello bot'')), mkTurn Model (Some (js ''Hello!'')),
      mkTurn User (Some (js ''what is 2+2?'')), mkTurn Model (Some (js ''It is 4.''))] \<and>
   map ex_age [ex_c, ex_b, ex_a] = [0, 1, 2] \<and>
   sorted_wrt (<) (map ex_age [ex_c, ex_b, ex_a])"
proof -
  have h: "ex_age ex_inbound < 4"
    by (simp add: ex_age_def ex_inbound_def js_def)
  have run: "getThreadMessages 4 ex_channel ex_inbound the_linkRegex =
     (Returns [mkTurn User (Some (js ''hello bot'')), mkTurn Model (Some (js ''Hello!'')),
               mkTurn User (Some (js ''what is 2+2?'')), mkTurn Model (Some (js ''It is 4.''))],
      [Fetch (js ''a'') (Inr ex_a), Fetch (js ''b'') (Inr ex_b), Fetch (js ''c'') (Inr ex_c)])"
    using ex_walk [of 1] by (simp add: eval_nat_numeral)
  have ages: "map ex_age [ex_c, ex_b, ex_a] = [0, 1, 2]"
    by (simp add: ex_age_def examples js_def)
  note inst = getThreadMessages_chronological [of 4 ex_channel ex_inbound the_linkRegex ex_age]
  from inst run
  have turns: "[mkTurn User (Some (js ''hello bot'')), mkTurn Model (Some (js ''Hello!'')),
         mkTurn User (Some (js ''what is 2+2?'')), mkTurn Model (Some (js ''It is 4.''))] =
        concat (map (turnsOf ex_inbound) [ex_c, ex_b, ex_a])"
    by simp
  from inst ex_older have "sorted_wrt (<)
      (map ex_age (rev (fetchedMessages (snd (getThreadMessages 4 ex_channel ex_inbound the_linkRegex)))))"
    by blast
  then have "sorted_wrt (<) (map ex_age [ex_c, ex_b, ex_a])"
    unfolding run by simp
  with turns run h ages ex_older show ?thesis by simp
qed

lemmas linkDefs = wordBoundary_def linkTld_def linkHost_def linkAfterScheme_def linkAt_def

lemma loop_failures:
  "getThreadMessages_loop n ch lr message ts cur = (r, evs) \<Longrightarrow>
   (case r of
      Throws e \<Rightarrow> \<exists>i. fetchFailures evs = [(i, e)] \<and> evs \<noteq> [] \<and> last evs = Fetch i (Inl e)
    | _ \<Rightarrow> fetchFailures evs = [])"
proof (induction n arbitrary: ts cur r evs)
  case 0
  then show ?case
    by (subst (asm) getThreadMessages_loop.simps) (auto split: option.splits if_splits)
next
  case (Suc n)
  show ?case
  proof (cases "reference cur = None \<or>
           (author_id cur = client_user_id message \<and> 0 < length (embeds cur) \<and> \<not> lr (content cur))")
    case True
    with Suc.prems show ?thesis by (auto simp: loop_stops)
  next
    case False
    then obtain i where i: "reference cur = Some i" by auto
    show ?thesis
    proof (cases "ch i")
      case (Inl e)
      with False i Suc.prems show ?thesis by (auto simp: loop_unfold_fetch)
    next
      case (Inr m)
      obtain r' evs' where rec: "getThreadMessages_loop n ch lr message (loopBody message m ts) m = (r', evs')"
        by (cases "getThreadMessages_loop n ch lr message (loopBody message m ts) m")
      with Inr False i Suc.prems have evs: "evs = Fetch i (Inr m) # evs'" "r = r'"
        by (auto simp: loop_unfold_fetch)
      from Suc.IH [OF rec] evs show ?thesis by (cases r') auto
    qed
  qed
qed

lemma replyChain_more_fuel:
  "repliesToOlder age ch \<Longrightarrow> age m < n \<Longrightarrow> replyChain (n + k) ch m = replyChain n ch m"
proof (induction n arbitrary: m)
  case 0
  then show ?case by simp
next
  case (Suc n)
  show ?case
  proof (cases "reference m")
    case None
    then show ?thesis by simp
  next
    case (Some i)
    show ?thesis
    proof (cases "ch i")
      case (Inl e)
      with Some show ?thesis by simp
    next
      case (Inr m')
      with Some Suc.prems(1) have "age m' < age m" unfolding repliesToOlder_def by blast
      with Suc.prems(2) have "age m' < n" by simp
      from Suc.IH [OF Suc.prems(1) this] Some Inr show ?thesis by simp
    qed
  qed
qed

lemma length_upToFirst: "length (upToFirst P xs) \<le> length xs"
  by (induction xs) auto

lemma upToFirst_all: "list_all (\<lambda>x. \<not> P x) (butlast xs) \<Longrightarrow> upToFirst P xs = xs"
  by (induction xs) (auto split: if_splits)

lemma loop_walked:
  "getThreadMessages_loop n ch lr message ts cur = (Returns out, evs) \<Longrightarrow>
   fetchedMessages evs =
     (if endsWalk lr message cur then [] else upToFirst (endsWalk lr message) (replyChain n ch cur))"
proof (induction n arbitrary: ts cur out evs)
  case 0
  then show ?case
    by (subst (asm) getThreadMessages_loop.simps) (auto split: option.splits if_splits)
next
  case (Suc n)
  show ?case
  proof (cases "reference cur = None \<or>
           (author_id cur = client_user_id message \<and> 0 < length (embeds cur) \<and> \<not> lr (content cur))")
    case True
    with Suc.prems have "evs = []" by (simp add: loop_stops)
    with True show ?thesis by (auto simp: endsWalk_def)
  next
    case False
    then obtain i where i: "reference cur = Some i" by auto
    from False have nend: "\<not> endsWalk lr message cur" by (simp add: endsWalk_def)
    show ?thesis
    proof (cases "ch i")
      case (Inl e)
      with False i Suc.prems show ?thesis by (simp add: loop_unfold_fetch)
    next
      case (Inr m)
      obtain r' evs' where rec: "getThreadMessages_loop n ch lr message (loopBody message m ts) m = (r', evs')"
        by (cases "getThreadMessages_loop n ch lr message (loopBody message m ts) m")
      with Inr False i Suc.prems have evs: "evs = Fetch i (Inr m) # evs'" and r': "r' = Returns out"
        by (auto simp: loop_unfold_fetch)
      from Suc.IH [OF rec [unfolded r']] evs nend i Inr show ?thesis by simp
    qed
  qed
qed

text \<open>
  C5, as the code has it: for a reply chain of depth \<open>N\<close> in which no fetch of the walk fails
  (and replies answer older messages, so that the walk ends), \<open>getThreadMessages\<close> returns
  and fetches exactly the \<open>W\<close> messages of the chain up to and including the first that
  ends the walk; the number of turns is \<open>W\<close> plus the number of those messages for which
  a quoted user turn is synthesized. \<open>W\<close> is at most \<open>N\<close>, and it is \<open>N\<close> when neither the
  inbound message nor a message of the chain before its last ends the walk.
\<close>

theorem getThreadMessages_length:
  assumes "repliesToOlder age ch" and "age message < n"
    and "fetchFailures (snd (getThreadMessages n ch message linkRegex)) = []"
  shows "\<exists>ts evs.
           getThreadMessages n ch message linkRegex = (Returns ts, evs) \<and>
           fetchedMessages evs = walkedMessages n ch linkRegex message \<and>
           length evs = length (walkedMessages n ch linkRegex message) \<and>
           length ts = length (walkedMessages n ch linkRegex message) +
                       length (filter (synthesizesQuote message) (walkedMessages n ch linkRegex message)) \<and>
           length (walkedMessages n ch linkRegex message) \<le> length (replyChain n ch message) \<and>
           (\<not> endsWalk linkRegex message message \<and>
            list_all (\<lambda>m. \<not> endsWalk linkRegex message m) (butlast (replyChain n ch message)) \<longrightarrow>
              walkedMessages n ch linkRegex message = replyChain n ch message)"
proof -
  obtain r evs where run: "getThreadMessages_loop n ch linkRegex message [] message = (r, evs)"
    by (cases "getThreadMessages_loop n ch linkRegex message [] message")
  from loop_enough_fuel [OF assms(1,2), where lr = linkRegex and message = message and ts = "[]"] run
  have "r \<noteq> OutOfFuel" by simp
  moreover from loop_failures [OF run] assms(3) run have "\<forall>e. r \<noteq> Throws e"
    by (auto simp: getThreadMessages_def)
  ultimately obtain ts where r: "r = Returns ts" by (cases r) auto
  note ret = run [unfolded r]
  from loop_result [OF ret] have
    ts: "ts = concat (map (turnsOf message) (rev (fetchedMessages evs)))"
    and len: "length (fetchedMessages evs) = length evs" by auto
  from loop_walked [OF ret] have walked: "fetchedMessages evs = walkedMessages n ch linkRegex message"
    by (simp add: walkedMessages_def)
  have "length (concat (map (turnsOf message) ms)) = length ms + length (filter (synthesizesQuote message) ms)" for ms
    by (induction ms) (auto simp: length_turnsOf)
  from this [of "rev (fetchedMessages evs)"] ts
  have count: "length ts = length (fetchedMessages evs) +
      length (filter (synthesizesQuote message) (fetchedMessages evs))"
    by (simp add: rev_filter [symmetric])
  have le: "length (walkedMessages n ch linkRegex message) \<le> length (replyChain n ch message)"
    by (simp add: walkedMessages_def length_upToFirst)
  have full: "walkedMessages n ch linkRegex message = replyChain n ch message"
    if "\<not> endsWalk linkRegex message message \<and>
        list_all (\<lambda>m. \<not> endsWalk linkRegex message m) (butlast (replyChain n ch message))"
    using that by (simp add: walkedMessages_def upToFirst_all)
  from ret walked len count le full show ?thesis
    by (auto simp: getThreadMessages_def)
qed

theorem getThreadMessages_length_witness:
  "repliesToOlder ex_age ex_channel \<and> ex_age ex_inbound < 4 \<and>
   fetchFailures (snd (getThreadMessages 4 ex_channel ex_inbound the_linkRegex)) = [] \<and>
   replyChain 4 ex_channel ex_inbound = [ex_a, ex_b, ex_c] \<and>
   walkedMessages 4 ex_channel the_linkRegex ex_inbound = [ex_a, ex_b, ex_c] \<and>
   filter (synthesizesQuote ex_inbound) [ex_a, ex_b, ex_c] = [ex_c] \<and>
   snd (getThreadMessages 4 ex_channel ex_inbound the_linkRegex) =
     [Fetch (js ''a'') (Inr ex_a), Fetch (js ''b'') (Inr ex_b), Fetch (js ''c'') (Inr ex_c)] \<and>
   (\<exists>ts. fst (getThreadMessages 4 ex_channel ex_inbound the_linkRegex) = Returns ts \<and>
         length ts = 3 + 1)"
proof -
  have h: "ex_age ex_inbound < 4"
    by (simp add: ex_age_def ex_inbound_def js_def)
  have run: "getThreadMessages 4 ex_channel ex_inbound the_linkRegex =
     (Returns [mkTurn User (Some (js ''hello bot'')), mkTurn Model (Some (js ''Hello!'')),
               mkTurn User (Some (js ''what is 2+2?'')), mkTurn Model (Some (js ''It is 4.''))],
      [Fetch (js ''a'') (Inr ex_a), Fetch (js ''b'') (Inr ex_b), Fetch (js ''c'') (Inr ex_c)])"
    using ex_walk [of 1] by (simp add: eval_nat_numeral)
  have nofail: "fetchFailures (snd (getThreadMessages 4 ex_channel ex_inbound the_linkRegex)) = []"
    by (simp add: run)
  have evs: "snd (getThreadMessages 4 ex_channel ex_inbound the_linkRegex) =
     [Fetch (js ''a'') (Inr ex_a), Fetch (js ''b'') (Inr ex_b), Fetch (js ''c'') (Inr ex_c)]"
    by (simp add: run)
  have chain: "replyChain 4 ex_channel ex_inbound = [ex_a, ex_b, ex_c]"
    by (simp add: eval_nat_numeral ex_inbound_def ex_a_def ex_b_def ex_c_def ex_channel_def js_def)
  have synth: "filter (synthesizesQuote ex_inbound) [ex_a, ex_b, ex_c] = [ex_c]"
    by (simp add: synthesizesQuote_def firstFooterText_def startsWith_def examples js_def)
  from getThreadMessages_length [OF ex_older h nofail] obtain ts evs where
    r: "getThreadMessages 4 ex_channel ex_inbound the_linkRegex = (Returns ts, evs)"
    and w: "fetchedMessages evs = walkedMessages 4 ex_channel the_linkRegex ex_inbound"
    and l: "length ts = length (walkedMessages 4 ex_channel the_linkRegex ex_inbound) +
        length (filter (synthesizesQuote ex_inbound) (walkedMessages 4 ex_channel the_linkRegex ex_inbound))"
    by blast
  from r w run have walked: "walkedMessages 4 ex_channel the_linkRegex ex_inbound = [ex_a, ex_b, ex_c]"
    by auto
  from r l walked synth
  have "\<exists>ts. fst (getThreadMessages 4 ex_channel ex_inbound the_linkRegex) = Returns ts \<and> length ts = 3 + 1"
    by simp
  with ex_older h nofail chain walked synth evs show ?thesis by (intro conjI)
qed

lemma cex_link_walk:
  "getThreadMessages (Suc (Suc n)) cex_link_channel ex_inbound the_linkRegex =
     (Returns [mkTurn User (Some (js ''hello bot'')), mkTurn Model (Some (js ''more at https://a.bc'')),
               mkTurn User (Some (js ''hello bot'')), mkTurn Model (Some (js ''see https://a.bc''))],
      [Fetch (js ''a'') (Inr cex_link_a), Fetch (js ''b'') (Inr cex_link_b)])"
proof -
  have link: "the_linkRegex (js ''see https://a.bc'')"
    by (simp add: js_def linkDefs startsWith_def charClasses)
  show ?thesis
    by (simp add: getThreadMessages_def loop_unfold_fetch loop_stops loopBody_def unshift_def
        firstFooterText_def startsWith_def examples cex_link_a_def cex_link_b_def
        cex_link_channel_def link [unfolded js_def, simplified] js_def)
qed

lemma cex_notice_walk:
  "getThreadMessages (Suc n) cex_notice_channel ex_inbound the_linkRegex =
     (Returns [mkTurn Model (Some (js ''It is 4.''))], [Fetch (js ''a'') (Inr cex_notice_a)])"
proof -
  have nolink: "\<not> the_linkRegex (js ''It is 4.'')"
    by (simp add: js_def linkAt_def startsWith_def)
  show ?thesis
    by (simp add: getThreadMessages_def loop_unfold_fetch loop_stops loopBody_def unshift_def
        firstFooterText_def startsWith_def ex_inbound_def ex_bot_def cex_notice_a_def
        cex_notice_channel_def deletedThread_def nolink [unfolded js_def, simplified] js_def)
qed

text \<open>
  C5 as stated (\<open>N\<close> or \<open>N + 1\<close> turns for a chain of depth \<open>N\<close>) fails in both directions,
  on chains that pass the gate and with no fetch failing. A chain of depth 2 made of two
  answers with a quoting footer, the first with a link in its content, gives four turns.
  A chain of depth 3 whose first message is an answer with a notice embed and no link
  gives one turn: the walk ends there.
\<close>

theorem chain_depth_counterexample:
  "replyChain 3 cex_link_channel ex_inbound = [cex_link_a, cex_link_b] \<and>
   isInvalidOriginalMessage (Some ex_inbound) cex_link_a the_linkRegex the_startStrings = Inr False \<and>
   getThreadMessages 3 cex_link_channel ex_inbound the_linkRegex =
     (Returns [mkTurn User (Some (js ''hello bot'')), mkTurn Model (Some (js ''more at https://a.bc'')),
               mkTurn User (Some (js ''hello bot'')), mkTurn Model (Some (js ''see https://a.bc''))],
      [Fetch (js ''a'') (Inr cex_link_a), Fetch (js ''b'') (Inr cex_link_b)]) \<and>
   length [mkTurn User (Some (js ''hello bot'')), mkTurn Model (Some (js ''more at https://a.bc'')),
           mkTurn User (Some (js ''hello bot'')), mkTurn Model (Some (js ''see https://a.bc''))] = 2 + 2 \<and>
   replyChain 4 cex_notice_channel ex_inbound = [cex_notice_a, ex_b, ex_c] \<and>
   isInvalidOriginalMessage (Some ex_inbound) cex_notice_a the_linkRegex the_startStrings = Inr False \<and>
   getThreadMessages 4 cex_notice_channel ex_inbound the_linkRegex =
     (Returns [mkTurn Model (Some (js ''It is 4.''))], [Fetch (js ''a'') (Inr cex_notice_a)]) \<and>
   length [mkTurn Model (Some (js ''It is 4.''))] = 3 - 2"
proof -
  have c1: "replyChain 3 cex_link_channel ex_inbound = [cex_link_a, cex_link_b]"
    by (simp add: eval_nat_numeral ex_inbound_def cex_link_a_def cex_link_b_def
        cex_link_channel_def js_def)
  have g1: "isInvalidOriginalMessage (Some ex_inbound) cex_link_a the_linkRegex the_startStrings = Inr False"
    by (simp add: isInvalidOriginalMessage_def cex_link_a_def examples the_startStrings_def
        firstFooterText_def falsy_def startsWith_def js_def)
  have r1: "getThreadMessages 3 cex_link_channel ex_inbound the_linkRegex =
     (Returns [mkTurn User (Some (js ''hello bot'')), mkTurn Model (Some (js ''more at https://a.bc'')),
               mkTurn User (Some (js ''hello bot'')), mkTurn Model (Some (js ''see https://a.bc''))],
      [Fetch (js ''a'') (Inr cex_link_a), Fetch (js ''b'') (Inr cex_link_b)])"
    using cex_link_walk [of 1] by (simp add: eval_nat_numeral)
  have c2: "replyChain 4 cex_notice_channel ex_inbound = [cex_notice_a, ex_b, ex_c]"
    by (simp add: eval_nat_numeral ex_inbound_def cex_notice_a_def ex_b_def ex_c_def
        cex_notice_channel_def js_def)
  have g2: "isInvalidOriginalMessage (Some ex_inbound) cex_notice_a the_linkRegex the_startStrings = Inr False"
    by (simp add: isInvalidOriginalMessage_def cex_notice_a_def ex_inbound_def ex_bot_def
        deletedThread_def the_startStrings_def firstFooterText_def falsy_def startsWith_def js_def)
  have r2: "getThreadMessages 4 cex_notice_channel ex_inbound the_linkRegex =
     (Returns [mkTurn Model (Some (js ''It is 4.''))], [Fetch (js ''a'') (Inr cex_notice_a)])"
    using cex_notice_walk [of 3] by (simp add: eval_nat_numeral)
  from c1 g1 r1 c2 g2 r2 show ?thesis by simp
qed

text \<open>
  C4, as the code has it: the loop reads the footer of the first embed only. When the walk,
  at the cursor \<open>cur\<close>, fetches a message \<open>m\<close> of the bot whose first embed has a footer text
  starting with \<open>Response to message by\<close>, it puts the model turn with the content of \<open>m\<close>
  and, before it, a user turn with index 2 of the footer text split at newlines in front
  of what was gathered, and goes on from \<open>m\<close> with exactly that; in the sequence returned
  the user turn stands right before the model turn.
\<close>

theorem quoted_turn_synthesized:
  assumes "reference cur = Some i"
    and "\<not> (author_id cur = client_user_id message \<and> 0 < length (embeds cur) \<and> \<not> linkRegex (content cur))"
    and "ch i = Inr m"
    and "author_id m = client_user_id message"
    and "embeds m = e # es" and "footer e = Some f" and "footer_text f = Some t"
    and "startsWith t (js ''Response to message by'')"
  shows "getThreadMessages_loop (Suc n) ch linkRegex message ts cur =
           (fst (getThreadMessages_loop n ch linkRegex message
                   (mkTurn User (index (splitOn 10 t) 2) # mkTurn Model (Some (content m)) # ts) m),
            Fetch i (Inr m) #
            snd (getThreadMessages_loop n ch linkRegex message
                   (mkTurn User (index (splitOn 10 t) 2) # mkTurn Model (Some (content m)) # ts) m)) \<and>
         (\<forall>out evs. getThreadMessages_loop (Suc n) ch linkRegex message ts cur = (Returns out, evs) \<longrightarrow>
            (\<exists>older. out = older @ mkTurn User (index (splitOn 10 t) 2) # mkTurn Model (Some (content m)) # ts))"
proof -
  let ?ts' = "mkTurn User (index (splitOn 10 t) 2) # mkTurn Model (Some (content m)) # ts"
  from assms(4-8) have body: "loopBody message m ts = ?ts'"
    by (simp add: loopBody_def firstFooterText_def unshift_def)
  from assms(1-3) have step: "getThreadMessages_loop (Suc n) ch linkRegex message ts cur =
      (fst (getThreadMessages_loop n ch linkRegex message ?ts' m),
       Fetch i (Inr m) # snd (getThreadMessages_loop n ch linkRegex message ?ts' m))"
    by (simp add: loop_unfold_fetch body)
  have "\<exists>older. out = older @ ?ts'"
    if "getThreadMessages_loop (Suc n) ch linkRegex message ts cur = (Returns out, evs)" for out evs
  proof -
    from that step obtain evs' where "getThreadMessages_loop n ch linkRegex message ?ts' m = (Returns out, evs')"
      by (cases "getThreadMessages_loop n ch linkRegex message ?ts' m") auto
    from loop_result [OF this] show ?thesis by blast
  qed
  with step show ?thesis by blast
qed

theorem quoted_turn_synthesized_witness:
  "reference ex_b = Some (js ''c'') \<and>
   \<not> (author_id ex_b = client_user_id ex_inbound \<and> 0 < length (embeds ex_b) \<and>
      \<not> the_linkRegex (content ex_b)) \<and>
   ex_channel (js ''c'') = Inr ex_c \<and>
   author_id ex_c = client_user_id ex_inbound \<and>
   embeds ex_c = ex_quote # [] \<and>
   footer ex_quote = Some \<lparr>footer_text = Some ex_quoteText\<rparr> \<and>
   startsWith ex_quoteText (js ''Response to message by'') \<and>
   index (splitOn 10 ex_quoteText) 2 = Some (js ''hello bot'') \<and>
   getThreadMessages_loop (Suc 0) ex_channel the_linkRegex ex_inbound
       [mkTurn Model (Some (js ''It is 4.''))] ex_b =
     (Returns [mkTurn User (Some (js ''hello bot'')), mkTurn Model (Some (js ''Hello!'')),
               mkTurn Model (Some (js ''It is 4.''))],
      [Fetch (js ''c'') (Inr ex_c)])"
proof -
  have h1: "reference ex_b = Some (js ''c'')" by (simp add: ex_b_def)
  have h2: "\<not> (author_id ex_b = client_user_id ex_inbound \<and> 0 < length (embeds ex_b) \<and>
      \<not> the_linkRegex (content ex_b))" by (simp add: ex_b_def)
  have h3: "ex_channel (js ''c'') = Inr ex_c" by (simp add: ex_channel_def js_def)
  have h4: "author_id ex_c = client_user_id ex_inbound" by (simp add: ex_c_def ex_inbound_def)
  have h5: "embeds ex_c = ex_quote # []" by (simp add: ex_c_def)
  have h6: "footer ex_quote = Some \<lparr>footer_text = Some ex_quoteText\<rparr>"
    by (simp add: ex_quote_def ex_quoteText_def)
  have h7: "footer_text \<lparr>footer_text = Some ex_quoteText\<rparr> = Some ex_quoteText" by simp
  have h8: "startsWith ex_quoteText (js ''Response to message by'')"
    by (simp add: ex_quoteText_def startsWith_def js_def)
  have ix: "index (splitOn 10 ex_quoteText) 2 = Some (js ''hello bot'')"
    by (simp add: ex_quoteText_def js_def)
  have stop: "getThreadMessages_loop 0 ex_channel the_linkRegex ex_inbound ts ex_c = (Returns ts, [])" for ts
    by (rule loop_stops) (simp add: ex_c_def)
  from quoted_turn_synthesized [where ch = ex_channel and linkRegex = the_linkRegex and n = 0
      and ts = "[mkTurn Model (Some (js ''It is 4.''))]", OF h1 h2 h3 h4 h5 h6 h7 h8]
  have "getThreadMessages_loop (Suc 0) ex_channel the_linkRegex ex_inbound
       [mkTurn Model (Some (js ''It is 4.''))] ex_b =
     (Returns [mkTurn User (Some (js ''hello bot'')), mkTurn Model (Some (js ''Hello!'')),
               mkTurn Model (Some (js ''It is 4.''))],
      [Fetch (js ''c'') (Inr ex_c)])"
    by (simp add: stop ix) (simp add: ex_c_def)
  with h1 h2 h3 h4 h5 h6 h8 ix show ?thesis by blast
qed

text \<open>
  C4 as stated (any embed with such a footer) fails for a message that carries the footer
  on its second embed: it is recorded as one model turn, with no user turn.
\<close>

theorem quote_in_second_embed_counterexample:
  "author_id cex_secondEmbed = client_user_id ex_inbound \<and>
   embeds cex_secondEmbed ! 1 = ex_quote \<and>
   footer ex_quote = Some \<lparr>footer_text = Some ex_quoteText\<rparr> \<and>
   startsWith ex_quoteText (js ''Response to message by'') \<and>
   getThreadMessages 2 cex_secondEmbed_channel ex_inbound the_linkRegex =
     (Returns [mkTurn Model (Some (js ''Hello!''))], [Fetch (js ''a'') (Inr cex_secondEmbed)])"
proof -
  have "getThreadMessages (Suc (Suc 0)) cex_secondEmbed_channel ex_inbound the_linkRegex =
     (Returns [mkTurn Model (Some (js ''Hello!''))], [Fetch (js ''a'') (Inr cex_secondEmbed)])"
    by (simp add: getThreadMessages_def loop_unfold_fetch loop_stops loopBody_def unshift_def
        firstFooterText_def startsWith_def examples cex_secondEmbed_def
        cex_secondEmbed_channel_def js_def)
  then show ?thesis
    by (simp add: eval_nat_numeral cex_secondEmbed_def ex_inbound_def ex_quote_def ex_quoteText_def
        startsWith_def js_def)
qed

section \<open>The gate, the key and deleted messages\<close>

lemma key_ok: "4 \<le> length k \<Longrightarrow> checkGeminiApiKey (Some k) interaction message = (None, [])"
  by (auto simp: checkGeminiApiKey_def falsy_def)

lemma ex_key_ok: "checkGeminiApiKey ex_key None message = (None, [])"
  unfolding ex_key_def by (rule key_ok) (simp add: js_def)

lemma tryBlock_failures:
  assumes "tryBlock n scope ch message = (r, evs)" and "(i, e) \<in> set (fetchFailures evs)"
  shows "r = Throws e \<and> last evs = Fetch i (Inl e)"
proof (cases "reference message")
  case None
  with assms show ?thesis by (simp add: tryBlock_def)
next
  case (Some messageId)
  show ?thesis
  proof (cases "ch messageId")
    case (Inl e')
    with Some assms show ?thesis by (auto simp: tryBlock_def)
  next
    case (Inr originalMessage)
    show ?thesis
    proof (cases "isInvalidOriginalMessage scope originalMessage the_linkRegex the_startStrings")
      case (Inl e')
      with Some Inr assms show ?thesis by (auto simp: tryBlock_def)
    next
      case gate: (Inr invalid)
      show ?thesis
      proof (cases "invalid \<or> author_id originalMessage \<noteq> client_user_id message")
        case True
        with Some Inr gate assms show ?thesis by (cases invalid) (auto simp: tryBlock_def)
      next
        case False
        then have "\<not> invalid" by simp
        obtain r' evs' where walk: "getThreadMessages_loop n ch the_linkRegex message [] message = (r', evs')"
          by (cases "getThreadMessages_loop n ch the_linkRegex message [] message")
        with Some Inr gate False \<open>\<not> invalid\<close> assms(1) have evs: "evs = Fetch messageId (Inr originalMessage) # evs'"
          by (cases r') (auto simp: tryBlock_def getThreadMessages_def)
        with assms(2) have mem: "(i, e) \<in> set (fetchFailures evs')" by simp
        with loop_failures [OF walk] have r': "r' = Throws e" and l: "evs' \<noteq> []" "last evs' = Fetch i (Inl e)"
          by (cases r'; auto)+
        from Some Inr gate False \<open>\<not> invalid\<close> assms(1) walk r' have "r = Throws e"
          by (auto simp: tryBlock_def getThreadMessages_def)
        with evs l show ?thesis by simp
      qed
    qed
  qed
qed

text \<open>
  C2: whenever a fetch made by \<open>fetchThreadMessages\<close>, the first one or one in the middle
  of the walk, is rejected with the platform's error 10008 (unknown message), the
  function returns the inbound content as the question, an empty history and the marker
  \<open>threadDeleted\<close>, whatever had been gathered; the rejected fetch is the last call made.
\<close>

theorem fetchThreadMessages_deleted:
  assumes "fetchThreadMessages n scope ch Gemini_API_KEY message = (r, evs)"
    and "(i, DiscordAPIError 10008) \<in> set (fetchFailures evs)"
  shows "r = Returns (Some \<lparr>res_userQuestion = Some (content message), res_threadMessages = Some [],
                           res_messageDeleted = Some threadDeleted\<rparr>) \<and>
         last evs = Fetch i (Inl (DiscordAPIError 10008))"
proof (cases "fst (checkGeminiApiKey Gemini_API_KEY None message)")
  case (Some sent)
  with assms show ?thesis
    by (auto simp: fetchThreadMessages_def checkGeminiApiKey_def Let_def split: if_splits)
next
  case None
  then have key: "checkGeminiApiKey Gemini_API_KEY None message = (None, [])"
    by (auto simp: checkGeminiApiKey_def Let_def split: if_splits)
  obtain r' evs' where tb: "tryBlock n scope ch message = (r', evs')"
    by (cases "tryBlock n scope ch message")
  with key assms(1) have evs: "evs = evs'"
    by (auto simp: fetchThreadMessages_def split: completion.splits sum.splits if_splits)
  with assms(2) tryBlock_failures [OF tb] have "r' = Throws (DiscordAPIError 10008)"
    and l: "last evs' = Fetch i (Inl (DiscordAPIError 10008))" by auto
  with key tb assms(1) have "r = Returns (Some \<lparr>res_userQuestion = Some (content message), res_threadMessages = Some [],
                           res_messageDeleted = Some threadDeleted\<rparr>)"
    by (simp add: fetchThreadMessages_def)
  with evs l show ?thesis by simp
qed

theorem fetchThreadMessages_deleted_witness:
  "fetchThreadMessages 5 moduleScope ex_broken ex_key ex_orphan =
     (Returns (Some \<lparr>res_userQuestion = Some (content ex_orphan), res_threadMessages = Some [],
                      res_messageDeleted = Some threadDeleted\<rparr>),
      [Fetch (js ''gone'') (Inl (DiscordAPIError 10008))]) \<and>
   loopBody ex_inbound ex_a [] = [mkTurn Model (Some (js ''It is 4.''))] \<and>
   fetchThreadMessages 5 (Some ex_inbound) ex_broken ex_key ex_inbound =
     (Returns (Some \<lparr>res_userQuestion = Some (content ex_inbound), res_threadMessages = Some [],
                      res_messageDeleted = Some threadDeleted\<rparr>),
      [Fetch (js ''a'') (Inr ex_a), Fetch (js ''a'') (Inr ex_a),
       Fetch (js ''b'') (Inl (DiscordAPIError 10008))])"
proof -
  have ev1: "snd (fetchThreadMessages 5 moduleScope ex_broken ex_key ex_orphan) =
      [Fetch (js ''gone'') (Inl (DiscordAPIError 10008))]"
    by (simp add: fetchThreadMessages_def ex_key_ok tryBlock_def ex_orphan_def ex_broken_def js_def)
  have walk: "getThreadMessages 5 ex_broken ex_inbound the_linkRegex =
      (Throws (DiscordAPIError 10008),
       [Fetch (js ''a'') (Inr ex_a), Fetch (js ''b'') (Inl (DiscordAPIError 10008))])"
    by (simp add: getThreadMessages_def eval_nat_numeral loop_unfold_fetch ex_inbound_def ex_a_def
        ex_bot_def ex_broken_def js_def)
  have gate: "isInvalidOriginalMessage (Some ex_inbound) ex_a the_linkRegex the_startStrings = Inr False"
    by (simp add: isInvalidOriginalMessage_def ex_a_def ex_inbound_def)
  have ev2: "snd (fetchThreadMessages 5 (Some ex_inbound) ex_broken ex_key ex_inbound) =
      [Fetch (js ''a'') (Inr ex_a), Fetch (js ''a'') (Inr ex_a),
       Fetch (js ''b'') (Inl (DiscordAPIError 10008))]"
    by (simp add: fetchThreadMessages_def ex_key_ok tryBlock_def gate walk
        ex_broken_def [of "js ''a''", simplified] ex_inbound_def [THEN arg_cong, of reference, simplified])
       (simp add: ex_a_def ex_inbound_def)
  note r1 = fetchThreadMessages_deleted [OF surjective_pairing, of "js ''gone''" 5 moduleScope ex_broken ex_key ex_orphan]
  note r2 = fetchThreadMessages_deleted [OF surjective_pairing, of "js ''b''" 5 "Some ex_inbound" ex_broken ex_key ex_inbound]
  from r1 ev1 have "fst (fetchThreadMessages 5 moduleScope ex_broken ex_key ex_orphan) =
      Returns (Some \<lparr>res_userQuestion = Some (content ex_orphan), res_threadMessages = Some [],
                      res_messageDeleted = Some threadDeleted\<rparr>)"
    by simp
  moreover from r2 ev2 have "fst (fetchThreadMessages 5 (Some ex_inbound) ex_broken ex_key ex_inbound) =
      Returns (Some \<lparr>res_userQuestion = Some (content ex_inbound), res_threadMessages = Some [],
                      res_messageDeleted = Some threadDeleted\<rparr>)"
    by simp
  moreover have "loopBody ex_inbound ex_a [] = [mkTurn Model (Some (js ''It is 4.''))]"
    by (simp add: loopBody_def unshift_def ex_a_def ex_inbound_def)
  ultimately show ?thesis using ev1 ev2
    by (metis prod.collapse)
qed

text \<open>
  With \<open>message\<close> bound to the inbound message, as the comparison in
  \<open>isInvalidOriginalMessage\<close> intends, a referenced message by another author is invalid
  and the function returns null for the question and the history, with the marker.
\<close>

lemma gate_invalid_when_bound:
  assumes "author_id originalMessage \<noteq> client_user_id message"
    and "4 \<le> length k" and "reference message = Some i" and "ch i = Inr originalMessage"
  shows "isInvalidOriginalMessage (Some message) originalMessage the_linkRegex the_startStrings = Inr True \<and>
         fetchThreadMessages n (Some message) ch (Some k) message =
           (Returns (Some \<lparr>res_userQuestion = None, res_threadMessages = None,
                            res_messageDeleted = Some threadDeleted\<rparr>),
            [Fetch i (Inr originalMessage)])"
  using assms by (simp add: isInvalidOriginalMessage_def fetchThreadMessages_def key_ok tryBlock_def)

text \<open>
  C3: the gate is meant to classify a referenced message by another author as invalid.
  In \<open>utils.js\<close> as written, \<open>message\<close> is unbound inside \<open>isInvalidOriginalMessage\<close>: for
  every referenced message that can be fetched, whoever wrote it, the gate throws a
  ReferenceError, which the \<open>catch\<close> rethrows; no result and no marker is produced.
\<close>

theorem gate_throws_ReferenceError:
  assumes "4 \<le> length k" and "reference message = Some i" and "ch i = Inr originalMessage"
  shows "isInvalidOriginalMessage moduleScope originalMessage the_linkRegex the_startStrings =
           Inl ReferenceError \<and>
         fetchThreadMessages n moduleScope ch (Some k) message =
           (Throws ReferenceError, [Fetch i (Inr originalMessage)])"
  using assms
  by (simp add: isInvalidOriginalMessage_def moduleScope_def fetchThreadMessages_def key_ok tryBlock_def)

theorem gate_throws_ReferenceError_witness:
  "4 \<le> length (js ''AIza-key'') \<and> reference ex_inbound = Some (js ''a'') \<and>
   ex_stranger_channel (js ''a'') = Inr ex_stranger \<and>
   author_id ex_stranger \<noteq> client_user_id ex_inbound \<and> embeds ex_stranger = [] \<and>
   \<not> the_linkRegex (content ex_stranger) \<and>
   fetchThreadMessages 5 moduleScope ex_stranger_channel (Some (js ''AIza-key'')) ex_inbound =
     (Throws ReferenceError, [Fetch (js ''a'') (Inr ex_stranger)])"
proof -
  have k: "4 \<le> length (js ''AIza-key'')" by (simp add: js_def)
  have r: "reference ex_inbound = Some (js ''a'')" by (simp add: ex_inbound_def)
  have c: "ex_stranger_channel (js ''a'') = Inr ex_stranger" by (simp add: ex_stranger_channel_def)
  have a: "author_id ex_stranger \<noteq> client_user_id ex_inbound"
    by (simp add: ex_stranger_def ex_inbound_def ex_bot_def js_def)
  have e: "embeds ex_stranger = []" by (simp add: ex_stranger_def)
  have l: "\<not> the_linkRegex (content ex_stranger)"
    by (simp add: ex_stranger_def js_def linkAt_def startsWith_def)
  from gate_throws_ReferenceError [OF k r, where ch = ex_stranger_channel, OF c, of 5] k r c a e l
  show ?thesis by blast
qed

text \<open>
  C10: with an absent key or one shorter than 4 units, \<open>fetchThreadMessages\<close> replies to
  the inbound message with the invalid-key notice and returns undefined; that reply is
  the only call it makes (nothing is fetched). A key of 4 units or more passes the check
  with no reply, and the outcome does not depend on which such key it is.
\<close>

theorem invalid_key_returns_early:
  "((Gemini_API_KEY = None \<or> (\<exists>k. Gemini_API_KEY = Some k \<and> length k < 4)) \<longrightarrow>
      fetchThreadMessages n scope ch Gemini_API_KEY message =
        (Returns None, [MessageReply \<lparr>payload_content = None, payload_embeds = [invalidApiEmbed]\<rparr>])) \<and>
   (\<forall>k k'. Gemini_API_KEY = Some k \<and> 4 \<le> length k \<and> 4 \<le> length k' \<longrightarrow>
      checkGeminiApiKey Gemini_API_KEY None message = (None, []) \<and>
      fetchThreadMessages n scope ch Gemini_API_KEY message =
        fetchThreadMessages n scope ch (Some k') message)"
proof (intro conjI impI allI)
  assume "Gemini_API_KEY = None \<or> (\<exists>k. Gemini_API_KEY = Some k \<and> length k < 4)"
  then have "falsy Gemini_API_KEY \<or> length (the Gemini_API_KEY) < 4"
    by (auto simp: falsy_def)
  then show "fetchThreadMessages n scope ch Gemini_API_KEY message =
        (Returns None, [MessageReply \<lparr>payload_content = None, payload_embeds = [invalidApiEmbed]\<rparr>])"
    by (simp add: fetchThreadMessages_def checkGeminiApiKey_def Let_def)
next
  fix k k' :: jsstring
  assume k: "Gemini_API_KEY = Some k \<and> 4 \<le> length k \<and> 4 \<le> length k'"
  then show "checkGeminiApiKey Gemini_API_KEY None message = (None, [])"
    by (simp add: key_ok)
  from k show "fetchThreadMessages n scope ch Gemini_API_KEY message =
        fetchThreadMessages n scope ch (Some k') message"
    by (simp add: fetchThreadMessages_def key_ok)
qed

theorem invalid_key_returns_early_witness:
  "fetchThreadMessages 5 moduleScope ex_channel None ex_inbound =
     (Returns None, [MessageReply \<lparr>payload_content = None, payload_embeds = [invalidApiEmbed]\<rparr>]) \<and>
   length (js ''abc'') < 4 \<and>
   fetchThreadMessages 5 moduleScope ex_channel (Some (js ''abc'')) ex_inbound =
     (Returns None, [MessageReply \<lparr>payload_content = None, payload_embeds = [invalidApiEmbed]\<rparr>]) \<and>
   4 \<le> length (js ''abcd'') \<and> 4 \<le> length (js ''AIza-key'') \<and>
   checkGeminiApiKey (Some (js ''abcd'')) None ex_inbound = (None, []) \<and>
   fetchThreadMessages 5 moduleScope ex_channel (Some (js ''abcd'')) ex_inbound =
     fetchThreadMessages 5 moduleScope ex_channel (Some (js ''AIza-key'')) ex_inbound"
proof -
  have s: "length (js ''abc'') < 4" and l: "4 \<le> length (js ''abcd'')" "4 \<le> length (js ''AIza-key'')"
    by (simp_all add: js_def)
  note a = invalid_key_returns_early [of None 5 moduleScope ex_channel ex_inbound, THEN conjunct1]
  note b = invalid_key_returns_early [of "Some (js ''abc'')" 5 moduleScope ex_channel ex_inbound, THEN conjunct1]
  note c = invalid_key_returns_early [of "Some (js ''abcd'')" 5 moduleScope ex_channel ex_inbound,
      THEN conjunct2, rule_format, of "js ''abcd''" "js ''AIza-key''"]
  from a b c s l show ?thesis by blast
qed

section \<open>Mention tokens and the two patterns\<close>

text \<open>
  What the matcher accepts at a position is exactly a token standing there, and two tokens
  never overlap: a token has its only \<open><\<close> at its start.
\<close>

lemma matchMention_token: "matchMention amp s = Some (m, rest) \<Longrightarrow> mentionToken amp m"
proof (induction amp s rule: matchMention.induct)
  case (1 amp a b r)
  define opt where "opt = (if amp \<and> take 1 r = [0x26] then [0x26 :: jschar] else [])"
  define ds where "ds = takeWhile isDigit (drop (length opt) r)"
  from "1.prems" have m: "m = [0x3C, 0x40] @ opt @ ds @ [0x3E]" and ne: "ds \<noteq> []"
    by (auto simp: Let_def opt_def ds_def split: if_splits list.splits)
  have digits: "list_all isDigit ds"
    unfolding ds_def list_all_iff by (auto dest: set_takeWhileD)
  show ?case
  proof (cases "opt = []")
    case True
    with m have "m = js ''<@'' @ ds @ js ''>''" by (simp add: js_def)
    with ne digits show ?thesis by (simp add: mentionToken.user)
  next
    case False
    then have "amp" "opt = [0x26]" by (auto simp: opt_def split: if_splits)
    with m have "m = js ''<@&'' @ ds @ js ''>''" by (simp add: js_def)
    with ne digits \<open>amp\<close> show ?thesis by (simp add: mentionToken.role)
  qed
qed simp_all

lemma takeWhile_digits: "list_all isDigit ds \<Longrightarrow> takeWhile isDigit (ds @ 0x3E # rest) = ds"
  by (induction ds) (auto simp: isDigit_def)

lemma dropWhile_digits: "list_all isDigit ds \<Longrightarrow> dropWhile isDigit (ds @ 0x3E # rest) = 0x3E # rest"
  by (induction ds) (auto simp: isDigit_def)

lemma matchMention_complete:
  assumes "mentionToken amp t"
  shows "matchMention amp (t @ rest) = Some (t, rest)"
  using assms
proof cases
  case (user ds)
  then obtain d ds' where ds: "ds = d # ds'" and d: "isDigit d" by (cases ds) auto
  then have amp: "d \<noteq> 0x26" by (auto simp: isDigit_def)
  from user ds have t: "t = 0x3C # 0x40 # (d # ds') @ [0x3E]" and dig: "list_all isDigit (d # ds')"
    by (simp_all add: js_def)
  have tw: "takeWhile isDigit ((d # ds') @ 0x3E # rest) = d # ds'"
    by (rule takeWhile_digits [OF dig])
  have dw: "dropWhile isDigit ((d # ds') @ 0x3E # rest) = 0x3E # rest"
    by (rule dropWhile_digits [OF dig])
  show ?thesis
    unfolding t using amp tw dw by simp
next
  case (role ds)
  then show ?thesis
    by (simp add: js_def takeWhile_digits dropWhile_digits)
qed

lemma token_shape: "mentionToken amp t \<Longrightarrow> \<exists>t'. t = 0x3C # t' \<and> 0x3C \<notin> set t'"
  by (erule mentionToken.cases) (auto simp: js_def list_all_iff isDigit_def)

lemma match_within:
  assumes match: "matchMention amp (pre @ tok @ r2) = Some (m, r1)"
    and tok: "mentionToken amp' tok" and pre: "pre \<noteq> []"
  shows "\<exists>q. pre = m @ q \<and> r1 = q @ tok @ r2"
proof -
  from matchMention_append [OF match] have eq: "pre @ tok @ r2 = m @ r1" by simp
  from matchMention_token [OF match] obtain m' where m: "m = 0x3C # m'" "0x3C \<notin> set m'"
    by (auto dest: token_shape)
  from tok obtain tok' where t: "tok = 0x3C # tok'" by (auto dest: token_shape)
  have "length m \<le> length pre"
  proof (rule ccontr)
    assume "\<not> length m \<le> length pre"
    then have lt: "length pre < length m" by simp
    have "(m @ r1) ! length pre = m ! length pre" using lt by (simp add: nth_append)
    moreover have "(pre @ tok @ r2) ! length pre = 0x3C" by (simp add: t)
    ultimately have "m ! length pre = 0x3C" using eq by simp
    moreover from pre lt m have "m ! length pre \<in> set m'"
      by (cases "length pre") auto
    ultimately show False using m by simp
  qed
  with eq have "pre = m @ drop (length m) pre"
    by (metis append_eq_append_conv_if append_take_drop_id)
  with eq have "r1 = drop (length m) pre @ tok @ r2"
    by (metis append.assoc same_append_eq)
  with \<open>pre = m @ drop (length m) pre\<close> show ?thesis by blast
qed

lemma replaceMention_unchanged:
  "\<not> containsToken False s \<Longrightarrow> replaceMention s = s"
proof (induction s)
  case Nil
  then show ?case by simp
next
  case (Cons c cs)
  have "matchMention False (c # cs) = None"
  proof (cases "matchMention False (c # cs)")
    case (Some r)
    obtain m rest where r: "r = (m, rest)" by (cases r)
    from Some r have "c # cs = [] @ m @ rest" "mentionToken False m"
      by (auto dest: matchMention_append matchMention_token)
    with Cons.prems show ?thesis unfolding containsToken_def by blast
  qed simp
  moreover have "\<not> containsToken False cs"
  proof
    assume "containsToken False cs"
    then obtain p t q where "cs = p @ t @ q" "mentionToken False t"
      unfolding containsToken_def by blast
    then have "c # cs = (c # p) @ t @ q" by simp
    with \<open>mentionToken False t\<close> Cons.prems show False unfolding containsToken_def by blast
  qed
  ultimately show ?case using Cons.IH by simp
qed

lemma replaceMention_first:
  assumes "mentionToken False tok" and "\<not> containsToken False pre"
    and "list_all isSpace ws" and "rest = [] \<or> \<not> isSpace (hd rest)"
  shows "replaceMention (pre @ tok @ ws @ rest) = pre @ rest"
  using assms(2)
proof (induction pre)
  case Nil
  from assms(1) obtain t' where t: "tok = 0x3C # t'" by (auto dest: token_shape)
  have "matchMention False (tok @ ws @ rest) = Some (tok, ws @ rest)"
    by (rule matchMention_complete [OF assms(1)])
  moreover have "dropWhile isSpace rest = rest"
    using assms(4) by (cases rest) auto
  then have "dropWhile isSpace (ws @ rest) = rest"
    using assms(3) by (induction ws) auto
  ultimately show ?case by (simp add: t)
next
  case (Cons c pre)
  have "matchMention False ((c # pre) @ tok @ ws @ rest) = None"
  proof (cases "matchMention False ((c # pre) @ tok @ ws @ rest)")
    case (Some r)
    obtain m r1 where r: "r = (m, r1)" by (cases r)
    with Some have match: "matchMention False ((c # pre) @ tok @ (ws @ rest)) = Some (m, r1)" by simp
    from match_within [OF match assms(1)] obtain q where "c # pre = [] @ m @ q" by auto
    moreover from match have "mentionToken False m" by (rule matchMention_token)
    ultimately show ?thesis using Cons.prems unfolding containsToken_def by blast
  qed simp
  moreover have "\<not> containsToken False pre"
  proof
    assume "containsToken False pre"
    then obtain p t q where "pre = p @ t @ q" "mentionToken False t"
      unfolding containsToken_def by blast
    then have "c # pre = (c # p) @ t @ q" by simp
    with \<open>mentionToken False t\<close> Cons.prems show False unfolding containsToken_def by blast
  qed
  ultimately show ?case using Cons.IH by simp
qed

lemma regexExec_complete:
  assumes "mentionToken True tok"
  shows "\<exists>m r. regexExec (pre @ tok @ post) = Some (m, r) \<and>
           ((m = tok \<and> r = post) \<or> (\<exists>q. r = q @ tok @ post \<and> length q < length pre))"
proof (induction pre)
  case Nil
  from assms obtain t' where t: "tok = 0x3C # t'" by (auto dest: token_shape)
  have "matchMention True (tok @ post) = Some (tok, post)"
    by (rule matchMention_complete [OF assms])
  then show ?case by (simp add: t)
next
  case (Cons c pre)
  show ?case
  proof (cases "matchMention True ((c # pre) @ tok @ post)")
    case None
    with Cons.IH show ?thesis by auto
  next
    case (Some r)
    obtain m r1 where r: "r = (m, r1)" by (cases r)
    with Some have match: "matchMention True ((c # pre) @ tok @ post) = Some (m, r1)" by simp
    from match_within [OF match assms] obtain q where q: "c # pre = m @ q" "r1 = q @ tok @ post"
      by auto
    from matchMention_append [OF match] have "m \<noteq> []" by simp
    with q(1) have "length q < length (c # pre)"
      by (metis length_append length_greater_0_conv less_add_same_cancel2)
    with match q(2) show ?thesis by auto
  qed
qed

lemma mentionLoop_rejects:
  assumes "mentionToken True tok" and "tok \<noteq> js ''<@'' @ rid @ js ''>''"
  shows "mentionLoop (Inr rid) (pre @ tok @ post) = Inr True"
proof (induction "length pre" arbitrary: pre rule: less_induct)
  case less
  from regexExec_complete [OF assms(1), of pre post] obtain m r where
    ex: "regexExec (pre @ tok @ post) = Some (m, r)"
    and alt: "(m = tok \<and> r = post) \<or> (\<exists>q. r = q @ tok @ post \<and> length q < length pre)"
    by blast
  show ?case
  proof (cases "m \<noteq> js ''<@'' @ rid @ js ''>''")
    case True
    with ex show ?thesis by (subst mentionLoop.simps) simp
  next
    case False
    with alt assms(2) obtain q where q: "r = q @ tok @ post" "length q < length pre" by auto
    from less [OF q(2)] have "mentionLoop (Inr rid) r = Inr True" by (simp add: q(1))
    with ex False show ?thesis by (subst mentionLoop.simps) simp
  qed
qed

lemma regexExec_none: "0x3C \<notin> set s \<Longrightarrow> regexExec s = None"
proof (induction s)
  case (Cons c cs)
  then have "matchMention True (c # cs) = None"
    by (cases cs) auto
  with Cons show ?case by simp
qed simp

lemma no_lt_no_token: "0x3C \<notin> set s \<Longrightarrow> \<not> containsToken amp s"
  by (auto simp: containsToken_def dest: token_shape)

text \<open>
  C9, as the code has it: for a fetched message by anyone but the bot, the recorded turn
  is a user turn whose text is the content with the first mention token \<open><@digits>\<close> and
  the white space after it removed, wherever the token stands (at the start or not); the
  text before the token and after that white space is kept, and a content without such
  a token is recorded unchanged.
\<close>

theorem user_turn_strips_first_mention:
  assumes "author_id m \<noteq> client_user_id message"
  shows "loopBody message m ts = mkTurn User (Some (replaceMention (content m))) # ts \<and>
         (\<not> containsToken False (content m) \<longrightarrow> replaceMention (content m) = content m) \<and>
         (\<forall>pre tok ws rest.
            content m = pre @ tok @ ws @ rest \<and> mentionToken False tok \<and>
            \<not> containsToken False pre \<and> list_all isSpace ws \<and>
            (rest = [] \<or> \<not> isSpace (hd rest)) \<longrightarrow>
            replaceMention (content m) = pre @ rest)"
proof (intro conjI allI impI)
  show "loopBody message m ts = mkTurn User (Some (replaceMention (content m))) # ts"
    using assms by (simp add: loopBody_def unshift_def)
next
  assume "\<not> containsToken False (content m)"
  then show "replaceMention (content m) = content m" by (rule replaceMention_unchanged)
next
  fix pre tok ws rest
  assume "content m = pre @ tok @ ws @ rest \<and> mentionToken False tok \<and>
          \<not> containsToken False pre \<and> list_all isSpace ws \<and> (rest = [] \<or> \<not> isSpace (hd rest))"
  then show "replaceMention (content m) = pre @ rest"
    by (simp add: replaceMention_first)
qed

theorem user_turn_strips_first_mention_witness:
  "author_id cex_midMention \<noteq> client_user_id ex_inbound \<and>
   content cex_midMention = js ''hi '' @ js ''<@123>'' @ js '' '' @ js ''there'' \<and>
   mentionToken False (js ''<@123>'') \<and>
   loopBody ex_inbound cex_midMention [] = [mkTurn User (Some (js ''hi there''))]"
proof -
  have a: "author_id cex_midMention \<noteq> client_user_id ex_inbound"
    by (simp add: cex_midMention_def examples js_def)
  have c: "content cex_midMention = js ''hi '' @ js ''<@123>'' @ js '' '' @ js ''there''"
    by (simp add: cex_midMention_def js_def)
  have "mentionToken False (js ''<@'' @ js ''123'' @ js ''>'')"
    by (rule mentionToken.user) (simp_all add: js_def isDigit_def)
  then have tok: "mentionToken False (js ''<@123>'')" by (simp add: js_def)
  have pre: "\<not> containsToken False (js ''hi '')"
    by (rule no_lt_no_token) (simp add: js_def)
  have ws: "list_all isSpace (js '' '')" "js ''there'' = [] \<or> \<not> isSpace (hd (js ''there''))"
    by (simp_all add: js_def isSpace_def)
  note inst = user_turn_strips_first_mention [OF a, of "[]"]
  from inst have body: "loopBody ex_inbound cex_midMention [] =
      [mkTurn User (Some (replaceMention (content cex_midMention)))]"
    by (rule conjunct1)
  from inst have "content cex_midMention = js ''hi '' @ js ''<@123>'' @ js '' '' @ js ''there'' \<and>
      mentionToken False (js ''<@123>'') \<and> \<not> containsToken False (js ''hi '') \<and>
      list_all isSpace (js '' '') \<and> (js ''there'' = [] \<or> \<not> isSpace (hd (js ''there''))) \<longrightarrow>
      replaceMention (content cex_midMention) = js ''hi '' @ js ''there''"
    by blast
  with c tok pre ws have "replaceMention (content cex_midMention) = js ''hi '' @ js ''there''"
    by blast
  also have "js ''hi '' @ js ''there'' = js ''hi there''" by (simp add: js_def)
  finally show ?thesis using a c tok body by simp
qed

text \<open>
  C9 as stated (only a leading mention is stripped) fails: the content
  \<open>hi <@123> there\<close> does not start with a mention, and is recorded as \<open>hi there\<close>.
\<close>

theorem leading_mention_only_counterexample:
  "author_id cex_midMention \<noteq> client_user_id ex_inbound \<and>
   \<not> startsWith (content cex_midMention) (js ''<@'') \<and>
   loopBody ex_inbound cex_midMention [] = [mkTurn User (Some (js ''hi there''))] \<and>
   js ''hi there'' \<noteq> content cex_midMention"
  by (simp add: cex_midMention_def examples js_def loopBody_def unshift_def startsWith_def
      charClasses)

section \<open>Sending the response\<close>

lemma mentionLoop_none: "0x3C \<notin> set s \<Longrightarrow> mentionLoop idr s = Inr False"
  by (subst mentionLoop.simps) (simp add: regexExec_none)

lemma suffix_no_lt: "0x3C \<notin> set truncationSuffix"
  by (simp add: truncationSuffix_def js_def)

lemma handleResponse_sent:
  assumes "chat userQuestion = Inr text0"
    and "Edit p \<in> set (snd (handleResponse chat userQuestion interaction message messageDeleted isContextMenuCommand))"
    and "payload_content p = Some c"
  shows "c = truncateResponse text0"
proof (cases "mentionLoop (requesterId message interaction) (truncateResponse text0)")
  case (Inl e)
  with assms show ?thesis by (simp add: handleResponse_def)
next
  case (Inr b)
  show ?thesis
  proof (cases b)
    case True
    with Inr assms show ?thesis by (auto simp: handleResponse_def)
  next
    case False
    with Inr assms show ?thesis
      by (cases "createInfoEmbed isContextMenuCommand message messageDeleted")
         (auto simp: handleResponse_def)
  qed
qed

text \<open>
  C6, as the code has it: the scan runs over the text as it would be sent, that is after
  the cut at 2000. When that text contains a mention-like token other than the mention
  \<open><@id>\<close> of the requester, the only effect of \<open>handleResponse\<close> is the edit that puts the
  mention-mismatch notice on the loading message: no text is sent.
\<close>

theorem handleResponse_rejects_foreign_mention:
  assumes "chat userQuestion = Inr text0"
    and "requesterId message interaction = Inr rid"
    and "truncateResponse text0 = pre @ tok @ post"
    and "mentionToken True tok"
    and "tok \<noteq> js ''<@'' @ rid @ js ''>''"
  shows "handleResponse chat userQuestion interaction message messageDeleted isContextMenuCommand =
           (Returns (), [Edit \<lparr>payload_content = None, payload_embeds = [pingError]\<rparr>])"
proof -
  from assms(4,5) have "mentionLoop (Inr rid) (pre @ tok @ post) = Inr True"
    by (rule mentionLoop_rejects)
  with assms(1,2,3) show ?thesis by (simp add: handleResponse_def)
qed

theorem handleResponse_rejects_foreign_mention_witness:
  "ex_chat (js ''ask <@123> about it'') (js ''who knows?'') = Inr (js ''ask <@123> about it'') \<and>
   requesterId (Some ex_inbound) None = Inr (js ''456'') \<and>
   truncateResponse (js ''ask <@123> about it'') = js ''ask '' @ js ''<@123>'' @ js '' about it'' \<and>
   mentionToken True (js ''<@123>'') \<and>
   js ''<@123>'' \<noteq> js ''<@'' @ js ''456'' @ js ''>'' \<and>
   handleResponse (ex_chat (js ''ask <@123> about it'')) (js ''who knows?'') None (Some ex_inbound) None False =
     (Returns (), [Edit \<lparr>payload_content = None, payload_embeds = [pingError]\<rparr>])"
proof -
  have c: "ex_chat (js ''ask <@123> about it'') (js ''who knows?'') = Inr (js ''ask <@123> about it'')"
    by (simp add: ex_chat_def)
  have r: "requesterId (Some ex_inbound) None = Inr (js ''456'')"
    by (simp add: requesterId_def ex_inbound_def js_def)
  have t: "truncateResponse (js ''ask <@123> about it'') = js ''ask '' @ js ''<@123>'' @ js '' about it''"
    by (simp add: truncateResponse_def js_def)
  have "mentionToken True (js ''<@'' @ js ''123'' @ js ''>'')"
    by (rule mentionToken.user) (simp_all add: js_def isDigit_def)
  then have tok: "mentionToken True (js ''<@123>'')" by (simp add: js_def)
  have ne: "js ''<@123>'' \<noteq> js ''<@'' @ js ''456'' @ js ''>''" by (simp add: js_def)
  from handleResponse_rejects_foreign_mention [of "ex_chat (js ''ask <@123> about it'')" "js ''who knows?''", OF c r t tok ne] c r t tok ne show ?thesis
    by blast
qed

text \<open>
  C6 as stated (every response text that contains a foreign mention is rejected) fails
  for a token that the cut removes: 2000 letters followed by \<open><@123>\<close>, asked by user 456,
  are answered with the first 1936 letters and the truncation notice.
\<close>

theorem mention_beyond_truncation_counterexample:
  "mentionToken True (js ''<@123>'') \<and>
   requesterId (Some ex_inbound) None = Inr (js ''456'') \<and>
   js ''<@123>'' \<noteq> js ''<@'' @ js ''456'' @ js ''>'' \<and>
   handleResponse (ex_chat (replicate 2000 0x61 @ js ''<@123>'')) (js ''who knows?'') None (Some ex_inbound) None False =
     (Returns (), [Edit \<lparr>payload_content = Some (replicate 1936 0x61 @ truncationSuffix), payload_embeds = []\<rparr>])"
proof -
  have "mentionToken True (js ''<@'' @ js ''123'' @ js ''>'')"
    by (rule mentionToken.user) (simp_all add: js_def isDigit_def)
  then have tok: "mentionToken True (js ''<@123>'')" by (simp add: js_def)
  have r: "requesterId (Some ex_inbound) None = Inr (js ''456'')"
    by (simp add: requesterId_def ex_inbound_def js_def)
  have ne: "js ''<@123>'' \<noteq> js ''<@'' @ js ''456'' @ js ''>''" by (simp add: js_def)
  have t: "truncateResponse (replicate 2000 0x61 @ js ''<@123>'') = replicate 1936 0x61 @ truncationSuffix"
    by (simp add: truncateResponse_def js_def)
  have "0x3C \<notin> set (replicate 1936 (0x61 :: jschar) @ truncationSuffix)"
    using suffix_no_lt by simp
  then have l: "mentionLoop (Inr (js ''456'')) (replicate 1936 0x61 @ truncationSuffix) = Inr False"
    by (rule mentionLoop_none)
  have "handleResponse (ex_chat (replicate 2000 0x61 @ js ''<@123>'')) (js ''who knows?'') None (Some ex_inbound) None False =
     (Returns (), [Edit \<lparr>payload_content = Some (replicate 1936 0x61 @ truncationSuffix), payload_embeds = []\<rparr>])"
    by (simp add: handleResponse_def ex_chat_def t r l createInfoEmbed_def)
  with tok r ne show ?thesis by blast
qed

text \<open>
  C7: whatever text \<open>handleResponse\<close> puts on the loading message is the model's text
  when that has at most 2000 units, and otherwise exactly its first 1936 units followed by
  the truncation suffix; and it does put that text there, in a single edit, whenever the
  scan for mentions finds nothing to reject and the info embeds are built.
\<close>

theorem handleResponse_truncates:
  assumes "chat userQuestion = Inr text0"
  shows "(\<forall>p c. Edit p \<in> set (snd (handleResponse chat userQuestion interaction message
                                       messageDeleted isContextMenuCommand)) \<and>
                 payload_content p = Some c \<longrightarrow>
            (if 2000 < length text0
             then c = take 1936 text0 @ truncationSuffix \<and> length (take 1936 text0) = 1936
             else c = text0)) \<and>
         (\<forall>infoEmbed.
            mentionLoop (requesterId message interaction)
              (if 2000 < length text0 then take 1936 text0 @ truncationSuffix else text0) = Inr False \<and>
            createInfoEmbed isContextMenuCommand message messageDeleted = Inr infoEmbed \<longrightarrow>
            handleResponse chat userQuestion interaction message messageDeleted isContextMenuCommand =
              (Returns (),
               [Edit \<lparr>payload_content =
                        Some (if 2000 < length text0 then take 1936 text0 @ truncationSuffix
                              else text0),
                      payload_embeds = infoEmbed\<rparr>]))"
proof (intro conjI allI impI)
  fix p c
  assume "Edit p \<in> set (snd (handleResponse chat userQuestion interaction message
                                       messageDeleted isContextMenuCommand)) \<and>
          payload_content p = Some c"
  with assms have "c = truncateResponse text0" by (auto dest: handleResponse_sent)
  then show "if 2000 < length text0
             then c = take 1936 text0 @ truncationSuffix \<and> length (take 1936 text0) = 1936
             else c = text0"
    by (simp add: truncateResponse_def)
next
  fix infoEmbed
  assume "mentionLoop (requesterId message interaction)
              (if 2000 < length text0 then take 1936 text0 @ truncationSuffix else text0) = Inr False \<and>
          createInfoEmbed isContextMenuCommand message messageDeleted = Inr infoEmbed"
  with assms show
    "handleResponse chat userQuestion interaction message messageDeleted isContextMenuCommand =
       (Returns (),
        [Edit \<lparr>payload_content =
                 Some (if 2000 < length text0 then take 1936 text0 @ truncationSuffix else text0),
               payload_embeds = infoEmbed\<rparr>])"
    by (simp add: handleResponse_def truncateResponse_def)
qed

theorem handleResponse_truncates_witness:
  "ex_chat (replicate 2500 0x61) (js ''who knows?'') = Inr (replicate 2500 0x61) \<and>
   length (replicate 2500 (0x61 :: jschar)) = 2500 \<and>
   take 1936 (replicate 2500 (0x61 :: jschar)) = replicate 1936 0x61 \<and>
   handleResponse (ex_chat (replicate 2500 0x61)) (js ''who knows?'') None (Some ex_inbound) None False =
     (Returns (),
      [Edit \<lparr>payload_content = Some (replicate 1936 0x61 @ truncationSuffix), payload_embeds = []\<rparr>]) \<and>
   ex_chat (js ''It is 4.'') (js ''who knows?'') = Inr (js ''It is 4.'') \<and>
   length (js ''It is 4.'') = 8 \<and>
   handleResponse (ex_chat (js ''It is 4.'')) (js ''who knows?'') None (Some ex_inbound) None False =
     (Returns (), [Edit \<lparr>payload_content = Some (js ''It is 4.''), payload_embeds = []\<rparr>])"
proof -
  have c1: "ex_chat (replicate 2500 0x61) (js ''who knows?'') = Inr (replicate 2500 0x61)"
    and c2: "ex_chat (js ''It is 4.'') (js ''who knows?'') = Inr (js ''It is 4.'')"
    by (simp_all add: ex_chat_def)
  have len1: "length (replicate 2500 (0x61 :: jschar)) = 2500" by simp
  have len2: "length (js ''It is 4.'') = 8" by (simp add: js_def)
  have tk: "take 1936 (replicate 2500 (0x61 :: jschar)) = replicate 1936 0x61" by simp
  have info: "createInfoEmbed False (Some ex_inbound) None = Inr []"
    by (simp add: createInfoEmbed_def)
  have "0x3C \<notin> set (replicate 1936 (0x61 :: jschar) @ truncationSuffix)"
    using suffix_no_lt by simp
  then have l1: "mentionLoop (requesterId (Some ex_inbound) None)
      (replicate 1936 0x61 @ truncationSuffix) = Inr False"
    by (rule mentionLoop_none)
  have "0x3C \<notin> set (js ''It is 4.'')" by (simp add: js_def)
  then have l2: "mentionLoop (requesterId (Some ex_inbound) None) (js ''It is 4.'') = Inr False"
    by (rule mentionLoop_none)
  have big: "(if 2000 < length (replicate 2500 (0x61 :: jschar))
      then take 1936 (replicate 2500 0x61) @ truncationSuffix else replicate 2500 0x61) =
      replicate 1936 0x61 @ truncationSuffix"
    by simp
  have small: "(if 2000 < length (js ''It is 4.'') then take 1936 (js ''It is 4.'') @ truncationSuffix
      else js ''It is 4.'') = js ''It is 4.''"
    by (simp add: len2)
  note long = handleResponse_truncates [of "ex_chat (replicate 2500 0x61)" "js ''who knows?''",
      OF c1, where interaction = None and message = "Some ex_inbound" and messageDeleted = None
      and isContextMenuCommand = False, THEN conjunct2, rule_format, of "[]", unfolded big,
      OF conjI [OF l1 info]]
  note short = handleResponse_truncates [of "ex_chat (js ''It is 4.'')" "js ''who knows?''",
      OF c2, where interaction = None and message = "Some ex_inbound" and messageDeleted = None
      and isContextMenuCommand = False, THEN conjunct2, rule_format, of "[]", unfolded small,
      OF conjI [OF l2 info]]
  from c1 len1 tk long c2 len2 short show ?thesis by (intro conjI)
qed

section \<open>Rendering errors\<close>

lemmas messageDefs = safetyMessage_def locationMessage_def quotaMessage_def emptyMessage_def
  internalMessage_def fetchingFrom_def

lemma keys_unfold:
  "msg \<in> set objectPrototypeKeys \<Longrightarrow>
   msg \<noteq> safetyMessage \<and> msg \<noteq> locationMessage \<and> msg \<noteq> quotaMessage \<and> msg \<noteq> emptyMessage \<and>
   msg \<noteq> internalMessage \<and> msg \<noteq> js ''default''"
  unfolding objectPrototypeKeys_def
  by (elim disjE | simp only: set_simps insert_iff empty_iff)+ (simp_all add: messageDefs js_def)

lemma quota_not_safety: "quotaMessage \<noteq> safetyMessage"
  by (simp add: quotaMessage_def safetyMessage_def fetchingFrom_def js_def)

lemma quota_not_location: "quotaMessage \<noteq> locationMessage"
  by (simp add: quotaMessage_def locationMessage_def js_def)

lemma lookup_quota: "lookupErrorResponse quotaMessage = Own quotaResponse"
  by (simp add: lookupErrorResponse_def errorResponses_def quota_not_safety quota_not_location)

lemma inherited_not_own: "msg \<in> set objectPrototypeKeys \<Longrightarrow> map_of errorResponses msg = None"
  by (drule keys_unfold) (simp add: errorResponses_def)

lemma lookup_inherited: "msg \<in> set objectPrototypeKeys \<Longrightarrow> lookupErrorResponse msg = Inherited"
  by (simp add: lookupErrorResponse_def inherited_not_own)

lemma lookup_own:
  "msg \<notin> set objectPrototypeKeys \<Longrightarrow>
   lookupErrorResponse msg = Own (case map_of errorResponses msg of Some r \<Rightarrow> r | None \<Rightarrow> defaultResponse)"
  by (simp add: lookupErrorResponse_def split: option.splits)

lemma quotaError_only_quota:
  "quotaError (case map_of errorResponses msg of Some r \<Rightarrow> r | None \<Rightarrow> defaultResponse) \<longleftrightarrow>
   msg = quotaMessage"
proof
  assume "quotaError (case map_of errorResponses msg of Some r \<Rightarrow> r | None \<Rightarrow> defaultResponse)"
  then show "msg = quotaMessage"
    by (auto simp: errorResponses_def defaultResponse_def split: if_splits)
next
  assume "msg = quotaMessage"
  then show "quotaError (case map_of errorResponses msg of Some r \<Rightarrow> r | None \<Rightarrow> defaultResponse)"
    by (simp add: errorResponses_def quota_not_safety quota_not_location quotaResponse_def)
qed

lemma countdown_10:
  "countdown e 10 =
     map (\<lambda>i. Edit \<lparr>payload_content = None, payload_embeds = [e\<lparr>footer := Some (retryFooter i)\<rparr>]\<rparr>)
       [10, 9, 8, 7, 6, 5, 4, 3, 2, 1]"
  by (simp add: eval_nat_numeral)

text \<open>
  C8: for the quota message, \<open>handleGeminiError\<close> makes exactly ten edits of the loading
  message, the footer counting 10, 9, ..., 1, and returns \<open>quota_error\<close>. For every other
  message that names nothing a plain object inherits it makes one edit, with the notice
  of the table's entry for the message or else the default notice, and returns undefined.
  For the twelve inherited names (\<open>constructor\<close>, \<open>toString\<close>, ...) the fallback to the
  default notice is missed: the lookup yields the inherited value, building the embed
  throws, and no edit is made.
\<close>

theorem handleGeminiError_outcomes:
  "(err_message = quotaMessage \<longrightarrow>
      handleGeminiError err_message =
        (Returns (Some (js ''quota_error'')),
         map (\<lambda>i. Edit \<lparr>payload_content = None,
                         payload_embeds =
                           [\<lparr>title = Some (er_title quotaResponse),
                             description = Some (er_description quotaResponse),
                             color = Some (er_color quotaResponse),
                             footer = Some \<lparr>footer_text =
                               Some ([0x23F1, 0xFE0F] @ js '' Retrying request in ('' @ decimal i @ js '')'')\<rparr>\<rparr>]\<rparr>)
           [10, 9, 8, 7, 6, 5, 4, 3, 2, 1])) \<and>
   (err_message \<noteq> quotaMessage \<and> err_message \<notin> set objectPrototypeKeys \<longrightarrow>
      handleGeminiError err_message =
        (Returns None,
         [Edit \<lparr>payload_content = None,
                payload_embeds =
                  (case map_of errorResponses err_message of
                     Some r \<Rightarrow>
                       [\<lparr>title = Some (er_title r), description = Some (er_description r),
                         color = Some (er_color r), footer = None\<rparr>]
                   | None \<Rightarrow>
                       [\<lparr>title = Some (er_title defaultResponse),
                         description = Some (er_description defaultResponse),
                         color = Some (er_color defaultResponse), footer = None\<rparr>])\<rparr>])) \<and>
   (err_message \<in> set objectPrototypeKeys \<longrightarrow>
      err_message \<noteq> quotaMessage \<and> map_of errorResponses err_message = None \<and>
      handleGeminiError err_message = (Throws ValidationError, []))"
proof (intro conjI impI)
  assume "err_message = quotaMessage"
  then show "handleGeminiError err_message =
        (Returns (Some (js ''quota_error'')),
         map (\<lambda>i. Edit \<lparr>payload_content = None,
                         payload_embeds =
                           [\<lparr>title = Some (er_title quotaResponse),
                             description = Some (er_description quotaResponse),
                             color = Some (er_color quotaResponse),
                             footer = Some \<lparr>footer_text =
                               Some ([0x23F1, 0xFE0F] @ js '' Retrying request in ('' @ decimal i @ js '')'')\<rparr>\<rparr>]\<rparr>)
           [10, 9, 8, 7, 6, 5, 4, 3, 2, 1])"
    by (simp add: handleGeminiError_def Let_def lookup_quota errorEmbed_def isQuotaError_def
        countdown_10 retryFooter_def quotaResponse_def del: map_eq_conv list.map)
next
  assume a: "err_message \<noteq> quotaMessage \<and> err_message \<notin> set objectPrototypeKeys"
  then have "\<not> quotaError (case map_of errorResponses err_message of Some r \<Rightarrow> r | None \<Rightarrow> defaultResponse)"
    by (simp add: quotaError_only_quota)
  with a show "handleGeminiError err_message =
        (Returns None,
         [Edit \<lparr>payload_content = None,
                payload_embeds =
                  (case map_of errorResponses err_message of
                     Some r \<Rightarrow>
                       [\<lparr>title = Some (er_title r), description = Some (er_description r),
                         color = Some (er_color r), footer = None\<rparr>]
                   | None \<Rightarrow>
                       [\<lparr>title = Some (er_title defaultResponse),
                         description = Some (er_description defaultResponse),
                         color = Some (er_color defaultResponse), footer = None\<rparr>])\<rparr>])"
    by (simp add: handleGeminiError_def Let_def lookup_own errorEmbed_def isQuotaError_def
        split: option.splits)
next
  assume k: "err_message \<in> set objectPrototypeKeys"
  then show "map_of errorResponses err_message = None" by (rule inherited_not_own)
  from k show "err_message \<noteq> quotaMessage" by (simp add: keys_unfold)
  from k show "handleGeminiError err_message = (Throws ValidationError, [])"
    by (simp add: handleGeminiError_def Let_def lookup_inherited errorEmbed_def)
qed

theorem handleGeminiError_outcomes_witness:
  "handleGeminiError quotaMessage =
     (Returns (Some (js ''quota_error'')),
      map (\<lambda>t. Edit \<lparr>payload_content = None,
                      payload_embeds =
                        [\<lparr>title = Some warningTitle,
                          description = Some (er_description quotaResponse),
                          color = Some (js ''Red''),
                          footer = Some \<lparr>footer_text =
                            Some ([0x23F1, 0xFE0F] @ js '' Retrying request in ('' @ t @ js '')'')\<rparr>\<rparr>]\<rparr>)
        [js ''10'', js ''9'', js ''8'', js ''7'', js ''6'', js ''5'', js ''4'', js ''3'', js ''2'',
         js ''1'']) \<and>
   js ''something else went wrong'' \<noteq> quotaMessage \<and>
   js ''something else went wrong'' \<notin> set objectPrototypeKeys \<and>
   handleGeminiError (js ''something else went wrong'') =
     (Returns None,
      [Edit \<lparr>payload_content = None,
             payload_embeds =
               [\<lparr>title = Some warningTitle, description = Some (er_description defaultResponse),
                 color = Some (js ''Red''), footer = None\<rparr>]\<rparr>]) \<and>
   js ''constructor'' \<in> set objectPrototypeKeys \<and>
   handleGeminiError (js ''constructor'') = (Throws ValidationError, [])"
proof -
  have n: "js ''something else went wrong'' \<noteq> quotaMessage"
    by (simp add: quotaMessage_def fetchingFrom_def js_def)
  have o: "js ''something else went wrong'' \<notin> set objectPrototypeKeys"
    by (simp add: objectPrototypeKeys_def js_def)
  have d: "map_of errorResponses (js ''something else went wrong'') = None"
    by (simp add: errorResponses_def messageDefs js_def)
  have k: "js ''constructor'' \<in> set objectPrototypeKeys"
    by (simp add: objectPrototypeKeys_def)
  have dec: "map decimal [10, 9, 8, 7, 6, 5, 4, 3, 2, 1] =
      [js ''10'', js ''9'', js ''8'', js ''7'', js ''6'', js ''5'', js ''4'', js ''3'', js ''2'', js ''1'']"
    by (simp add: decimal.simps js_def)
  have q: "handleGeminiError quotaMessage =
     (Returns (Some (js ''quota_error'')),
      map (\<lambda>t. Edit \<lparr>payload_content = None,
                      payload_embeds =
                        [\<lparr>title = Some warningTitle,
                          description = Some (er_description quotaResponse),
                          color = Some (js ''Red''),
                          footer = Some \<lparr>footer_text =
                            Some ([0x23F1, 0xFE0F] @ js '' Retrying request in ('' @ t @ js '')'')\<rparr>\<rparr>]\<rparr>)
        (map decimal [10, 9, 8, 7, 6, 5, 4, 3, 2, 1]))"
    using handleGeminiError_outcomes [of quotaMessage, THEN conjunct1, rule_format, OF refl]
    by (simp add: quotaResponse_def comp_def del: list.map)
  have u: "handleGeminiError (js ''something else went wrong'') =
     (Returns None,
      [Edit \<lparr>payload_content = None,
             payload_embeds =
               [\<lparr>title = Some warningTitle, description = Some (er_description defaultResponse),
                 color = Some (js ''Red''), footer = None\<rparr>]\<rparr>])"
    using handleGeminiError_outcomes [of "js ''something else went wrong''", THEN conjunct2,
        THEN conjunct1, rule_format, OF conjI [OF n o]]
    by (simp add: d) (simp add: defaultResponse_def)
  have c: "handleGeminiError (js ''constructor'') = (Throws ValidationError, [])"
    using handleGeminiError_outcomes [of "js ''constructor''", THEN conjunct2, THEN conjunct2,
        rule_format, OF k]
    by (rule conjunct2 [THEN conjunct2])
  from q [unfolded dec] n o u k c show ?thesis by (intro conjI)
qed

end
